theory Spec2Isabelle
  imports Main "HOL-Library.Word" "HOL-Library.Multiset" "HOL-Library.Signed_Division"
begin

unbundle bit_operations_syntax

section \<open>Images, colours and runtime panics\<close>

text \<open>
  Go's \<open>int\<close> is modelled as \<open>int\<close>; \<open>uint32\<close>, \<open>int32\<close>, \<open>uint16\<close>, \<open>uint8\<close> and
  \<open>uint64\<close> are words of that width, so that the wrap-around of the source is kept.
  A run-time panic of the source is a value of type \<open>panic\<close>; a function that may panic
  returns \<open>panic + 'a\<close>.
\<close>

type_synonym u8 = "8 word"
type_synonym u16 = "16 word"
type_synonym u32 = "32 word"
type_synonym u64 = "64 word"
type_synonym i32 = "32 word"

datatype panic = IndexOutOfRange | MakeSliceLenOutOfRange | IntegerDivideByZero | NilDereference

text \<open>\<open>image.Rectangle\<close>: the points with \<open>MinX \<le> x < MaxX\<close> and \<open>MinY \<le> y < MaxY\<close>.\<close>

record rectangle =
  MinX :: int
  MinY :: int
  MaxX :: int
  MaxY :: int

text \<open>
  The result of \<open>img.At(x, y).RGBA()\<close> without the alpha value, which no function of the
  repository reads: red, green, blue as \<open>uint32\<close>.
\<close>

type_synonym rgb = "u32 \<times> u32 \<times> u32"

record image =
  Bounds :: rectangle
  At :: "int \<Rightarrow> int \<Rightarrow> rgb"

text \<open>\<open>type point struct{ x, y int32 }\<close>\<close>

type_synonym point = "i32 \<times> i32"

text \<open>\<open>q.img.At(int(p.x), int(p.y)).RGBA()\<close>\<close>

definition RGBA_at :: "image \<Rightarrow> point \<Rightarrow> rgb" where
  "RGBA_at img p = At img (sint (fst p)) (sint (snd p))"

text \<open>The constants \<open>wr\<close>, \<open>wg\<close>, \<open>wb\<close>; \<open>wr\<close> is the zero value of the field \<open>widestCh\<close>.\<close>

datatype wconst = wr | wg | wb

fun chan :: "wconst \<Rightarrow> 'a \<times> 'a \<times> 'a \<Rightarrow> 'a" where
  "chan wr (r, g, b) = r"
| "chan wg (r, g, b) = g"
| "chan wb (r, g, b) = b"

subsection \<open>Extents of a pixel list\<close>

text \<open>
  The first loop of \<open>setWidestChannel\<close> and of \<open>setPriority\<close>: minimum and maximum of
  each channel, starting from \<open>math.MaxUint32\<close> and \<open>0\<close>.
\<close>

record extents =
  minR :: u32
  maxR :: u32
  minG :: u32
  maxG :: u32
  minB :: u32
  maxB :: u32

definition extents0 :: extents where
  "extents0 = \<lparr>minR = 0xFFFFFFFF, maxR = 0, minG = 0xFFFFFFFF, maxG = 0,
               minB = 0xFFFFFFFF, maxB = 0\<rparr>"

definition extents_step :: "image \<Rightarrow> point \<Rightarrow> extents \<Rightarrow> extents" where
  "extents_step img p e =
     (case RGBA_at img p of (r, g, b) \<Rightarrow>
        \<lparr>minR = (if r < minR e then r else minR e),
         maxR = (if r > maxR e then r else maxR e),
         minG = (if g < minG e then g else minG e),
         maxG = (if g > maxG e then g else maxG e),
         minB = (if b < minB e then b else minB e),
         maxB = (if b > maxB e then b else maxB e)\<rparr>)"

definition find_extents :: "image \<Rightarrow> point list \<Rightarrow> extents" where
  "find_extents img ps = fold (extents_step img) ps extents0"

text \<open>
  The second part of both functions: start with green, take red if its range is
  strictly wider, then blue if its range is strictly wider than the current one.
  The subtractions are those of \<open>uint32\<close>.  Returned: \<open>widestCh\<close>, \<open>min\<close>, \<open>max\<close>.
\<close>

definition widest :: "extents \<Rightarrow> wconst \<times> u32 \<times> u32" where
  "widest e =
     (let s0 = (wg, minG e, maxG e);
          s1 = (case s0 of (w, mn, mx) \<Rightarrow>
                  if maxR e - minR e > mx - mn then (wr, minR e, maxR e) else s0);
          s2 = (case s1 of (w, mn, mx) \<Rightarrow>
                  if maxB e - minB e > mx - mn then (wb, minB e, maxB e) else s1)
      in s2)"


text \<open>
  The body of a \<open>for\<close> loop either leaves the loop with a result (\<open>break\<close> or a panic)
  or goes on with the values of the loop's variables.
\<close>

datatype ('r, 's) loop = Break 'r | Continue 's

section \<open>The pixel array and its slices\<close>

text \<open>
  \<open>newQuantizer\<close> makes one array of points; every \<open>px\<close> field is a slice of that array,
  and \<open>split\<close> swaps points in place.  The array is kept in the quantizer's state
  (\<open>pxs\<close>), and a slice is the offset of its first element in the array and its length.
  No slice is ever appended to or extended, so the capacity is not modelled.
\<close>

record slice =
  off :: nat
  len :: nat

definition slice_idxs :: "slice \<Rightarrow> nat list" where
  "slice_idxs s = [off s ..< off s + len s]"

definition slice_elems :: "'a list \<Rightarrow> slice \<Rightarrow> 'a list" where
  "slice_elems arr s = map (\<lambda>k. arr ! k) (slice_idxs s)"

text \<open>
  \<open>type cluster struct\<close> of package median; package mean's cluster has four more
  fields and is declared below as an extension.
\<close>

record cluster =
  px :: slice
  widestCh :: wconst

text \<open>
  \<open>type quantizer struct\<close> with the pixel array, and with a counter that is not in the
  source: \<open>splits\<close> is the number of calls of \<open>split\<close> made so far.
\<close>

record 'c quantizer =
  img :: image
  pxs :: "point list"
  cs :: "'c list"
  splits :: nat

text \<open>
  The nested loops of \<open>newQuantizer\<close>: rows from \<open>Min.Y\<close>, in each row the columns
  from \<open>Min.X\<close>, each coordinate converted to \<open>int32\<close>.
\<close>

definition scan_points :: "rectangle \<Rightarrow> point list" where
  "scan_points b =
     concat (map (\<lambda>y. map (\<lambda>x. (word_of_int x, word_of_int y)) [MinX b .. MaxX b - 1])
                 [MinY b .. MaxY b - 1])"

text \<open>
  \<open>make([]point, npx)\<close> followed by the loops: the points of the scan, then zero
  points where the loops wrote nothing (there are none when the rectangle is well-formed).
\<close>

definition make_px :: "rectangle \<Rightarrow> int \<Rightarrow> point list" where
  "make_px b npx = scan_points b @ replicate (nat npx - length (scan_points b)) (0, 0)"

section \<open>Package median\<close>

subsection \<open>newQuantizer\<close>

text \<open>
  \<open>make\<close> panics on a negative length.  It also refuses a length whose memory exceeds
  the limit of the runtime (\<open>2\<^sup>4\<^sup>8\<close> bytes on the usual 64-bit platforms); that limit
  and the wrap-around of \<open>int\<close> in the product \<open>npx\<close> are not part of the embedding,
  which takes \<open>int\<close> as the integers.  A statement that an allocation succeeds is
  therefore made only for images with bounds in the range of \<open>int32\<close> and at most
  \<open>2\<^sup>3\<^sup>1\<close> pixels.
\<close>

definition median_newQuantizer :: "image \<Rightarrow> int \<Rightarrow> panic + cluster quantizer" where
  "median_newQuantizer im nq =
     (let b = Bounds im;
          npx = (MaxX b - MinX b) * (MaxY b - MinY b)
      in if npx < 0 then Inl MakeSliceLenOutOfRange
         else if nq < 0 then Inl MakeSliceLenOutOfRange
         else if nq = 0 then Inl IndexOutOfRange
         else Inr \<lparr>img = im, pxs = make_px b npx,
                   cs = (replicate (nat nq) \<lparr>px = \<lparr>off = 0, len = 0\<rparr>, widestCh = wr\<rparr>)
                          [0 := \<lparr>px = \<lparr>off = 0, len = nat npx\<rparr>, widestCh = wr\<rparr>],
                   splits = 0\<rparr>)"

subsection \<open>setWidestChannel\<close>

definition median_setWidestChannel ::
  "image \<Rightarrow> point list \<Rightarrow> cluster \<Rightarrow> cluster \<times> bool" where
  "median_setWidestChannel im arr c =
     (case widest (find_extents im (slice_elems arr (px c))) of
        (w, mn, mx) \<Rightarrow> (c\<lparr>widestCh := w\<rparr>, mx > mn))"

subsection \<open>medianCut\<close>

text \<open>\<open>for m1--; m1 > 0 && ch[m1] == ch[m1-1]; m1-- {}\<close>, entered after the first \<open>m1--\<close>.\<close>

fun dec_m1 :: "u16 list \<Rightarrow> nat \<Rightarrow> nat" where
  "dec_m1 ch 0 = 0"
| "dec_m1 ch (Suc k) = (if ch ! Suc k = ch ! k then dec_m1 ch k else Suc k)"

text \<open>\<open>for m2++; m2 < len(ch) && ch[m2] == ch[m2-1]; m2++ {}\<close>, entered after the first \<open>m2++\<close>.\<close>

function inc_m2 :: "u16 list \<Rightarrow> nat \<Rightarrow> nat" where
  "inc_m2 ch m2 = (if m2 < length ch \<and> ch ! m2 = ch ! (m2 - 1) then inc_m2 ch (m2 + 1) else m2)"
  by pat_completeness auto
termination
  by (relation "measure (\<lambda>(ch, m2). length ch - m2)") auto

text \<open>
  The second half of \<open>medianCut\<close> (\<open>// Find cut.\<close>), on the sorted buffer: the cut is read
  at the median or at the nearer end of the run of equal values around it.  Reading
  \<open>ch[m1]\<close> and \<open>ch[m1-1]\<close> panics when the buffer has fewer than two values, reading
  \<open>ch[m2]\<close> panics when \<open>m2 = len(ch)\<close>.
\<close>

definition find_cut :: "u16 list \<Rightarrow> panic + u32" where
  "find_cut ch =
     (let m1 = length ch div 2
      in if length ch < 2 then Inl IndexOutOfRange
         else if ch ! m1 \<noteq> ch ! (m1 - 1) then Inr (ucast (ch ! m1))
         else
           let m2 = inc_m2 ch (m1 + 1);
               m1 = dec_m1 ch (m1 - 1)
           in if m1 > length ch - m2 then Inr (ucast (ch ! m1))
              else if m2 \<ge> length ch then Inl IndexOutOfRange
              else Inr (ucast (ch ! m2)))"

text \<open>
  \<open>medianCut\<close>: the channel values are copied as \<open>uint16\<close> into the buffer
  \<open>q.ch[:len(px)]\<close> (the buffer has the length of the pixel array) and sorted by
  \<open>sort.Sort\<close>.
\<close>

definition medianCut :: "image \<Rightarrow> point list \<Rightarrow> cluster \<Rightarrow> panic + u32" where
  "medianCut im arr c =
     (if len (px c) > length arr then Inl IndexOutOfRange
      else find_cut (sort (map (\<lambda>p. (ucast (chan (widestCh c) (RGBA_at im p)) :: u16))
                               (slice_elems arr (px c)))))"

subsection \<open>split\<close>

text \<open>
  The loop of \<open>split\<close>, on the pixel array: \<open>px[k]\<close> is the array element \<open>off + k\<close>.
  \<open>low\<close> is the test that keeps a point on the left: \<open>v < m\<close> in package median,
  \<open>v < m || m == s.min && v == m\<close> in package mean; the loop is otherwise the same text
  in both packages.  Returned: the array and the final \<open>i\<close>
  (\<open>lst\<close> is the variable \<open>last\<close>).
\<close>

function split_loop ::
  "(point \<Rightarrow> bool) \<Rightarrow> nat \<Rightarrow> point list \<Rightarrow> int \<Rightarrow> int \<Rightarrow> point list \<times> int" where
  "split_loop low ofs arr i lst =
     (if i \<le> lst then
        if low (arr ! (ofs + nat i)) then split_loop low ofs arr (i + 1) lst
        else split_loop low ofs
               (arr[ofs + nat lst := arr ! (ofs + nat i), ofs + nat i := arr ! (ofs + nat lst)])
               i (lst - 1)
      else (arr, i))"
  by pat_completeness auto
termination
  by (relation "measure (\<lambda>(low, ofs, arr, i, lst). nat (lst + 1 - i))") auto

text \<open>\<open>s.px = px[:i]\<close> and \<open>c.px = px[i:]\<close>\<close>

definition split_slices :: "slice \<Rightarrow> int \<Rightarrow> slice \<times> slice" where
  "split_slices p i =
     (\<lparr>off = off p, len = nat i\<rparr>, \<lparr>off = off p + nat i, len = len p - nat i\<rparr>)"

definition median_split ::
  "image \<Rightarrow> point list \<Rightarrow> cluster \<Rightarrow> cluster \<Rightarrow> u32 \<Rightarrow> point list \<times> cluster \<times> cluster" where
  "median_split im arr s c m =
     (case split_loop (\<lambda>p. chan (widestCh s) (RGBA_at im p) < m) (off (px s)) arr
             0 (int (len (px s)) - 1) of
        (arr', i) \<Rightarrow>
          (case split_slices (px s) i of
             (lo, hi) \<Rightarrow> (arr', s\<lparr>px := lo\<rparr>, c\<lparr>px := hi\<rparr>)))"


subsection \<open>The priority queue\<close>

text \<open>
  \<open>type queue []*cluster\<close>: a pointer to a cluster is its index in \<open>qz.cs\<close>.  \<open>Less\<close>
  and \<open>Swap\<close> are the methods of the source, \<open>heap_up\<close>, \<open>heap_down\<close>, \<open>heap_Push\<close> and
  \<open>heap_Pop\<close> are \<open>up\<close>, \<open>down\<close>, \<open>Push\<close> and \<open>Pop\<close> of the standard library's
  \<open>container/heap\<close>, which call them.
\<close>

definition queue_Less :: "('a cluster_scheme) list \<Rightarrow> nat list \<Rightarrow> nat \<Rightarrow> nat \<Rightarrow> bool" where
  "queue_Less cl q i j = (len (px (cl ! (q ! i))) > len (px (cl ! (q ! j))))"

definition queue_Swap :: "nat list \<Rightarrow> nat \<Rightarrow> nat \<Rightarrow> nat list" where
  "queue_Swap q i j = q[i := q ! j, j := q ! i]"

function heap_up :: "('a cluster_scheme) list \<Rightarrow> nat list \<Rightarrow> nat \<Rightarrow> nat list" where
  "heap_up cl q j =
     (let i = (j - 1) div 2
      in if i = j \<or> \<not> queue_Less cl q j i then q
         else heap_up cl (queue_Swap q i j) i)"
  by pat_completeness auto
termination
  by (relation "measure (\<lambda>(cl, q, j). j)") auto

function heap_down :: "('a cluster_scheme) list \<Rightarrow> nat list \<Rightarrow> nat \<Rightarrow> nat \<Rightarrow> nat list" where
  "heap_down cl q i n =
     (let j1 = 2 * i + 1
      in if j1 \<ge> n then q
         else
           let j = (if j1 + 1 < n \<and> queue_Less cl q (j1 + 1) j1 then j1 + 1 else j1)
           in if \<not> queue_Less cl q j i then q
              else heap_down cl (queue_Swap q i j) j n)"
  by pat_completeness auto
termination
  by (relation "measure (\<lambda>(cl, q, i, n). n - i)") auto

definition heap_Push :: "('a cluster_scheme) list \<Rightarrow> nat list \<Rightarrow> nat \<Rightarrow> nat list" where
  "heap_Push cl q x = heap_up cl (q @ [x]) (length (q @ [x]) - 1)"

definition heap_Pop :: "('a cluster_scheme) list \<Rightarrow> nat list \<Rightarrow> nat \<times> nat list" where
  "heap_Pop cl q =
     (let n = length q - 1;
          q' = heap_down cl (queue_Swap q 0 n) 0 n
      in (q' ! n, take n q'))"

subsection \<open>cluster\<close>

text \<open>
  The body of the loop of \<open>cluster\<close>.  \<open>c\<close> is the index of the cluster that \<open>c\<close> points
  to, \<open>i\<close> the loop variable.  \<open>c = &qz.cs[i]\<close> panics when \<open>i = len(qz.cs)\<close>.
\<close>

definition median_cluster_body ::
  "cluster quantizer \<Rightarrow> nat list \<Rightarrow> nat \<Rightarrow> nat
     \<Rightarrow> (panic + cluster quantizer, cluster quantizer \<times> nat list \<times> nat \<times> nat) loop" where
  "median_cluster_body qz pq c i =
     (case median_setWidestChannel (img qz) (pxs qz) (cs qz ! c) of
        (c1, ok) \<Rightarrow>
          let cs1 = (cs qz)[c := c1];
              pq1 = (if ok then heap_Push cs1 pq c else pq)
          in if length pq1 = 0 then Break (Inr (qz\<lparr>cs := take i cs1\<rparr>))
             else
               (case heap_Pop cs1 pq1 of
                  (s, pq2) \<Rightarrow>
                    (case medianCut (img qz) (pxs qz) (cs1 ! s) of
                       Inl e \<Rightarrow> Break (Inl e)
                     | Inr m \<Rightarrow>
                         if i \<ge> length cs1 then Break (Inl IndexOutOfRange)
                         else
                           (case median_split (img qz) (pxs qz) (cs1 ! s) (cs1 ! i) m of
                              (arr2, s2, c2) \<Rightarrow>
                                let cs2 = cs1[s := s2, i := c2]
                                in if i + 1 = length cs2
                                   then Break (Inr (qz\<lparr>pxs := arr2, cs := cs2, splits := splits qz + 1\<rparr>))
                                   else
                                     (case median_setWidestChannel (img qz) arr2 (cs2 ! s) of
                                        (s3, ok2) \<Rightarrow>
                                          let cs3 = cs2[s := s3];
                                              pq3 = (if ok2 then heap_Push cs3 pq2 s else pq2)
                                          in Continue (qz\<lparr>pxs := arr2, cs := cs3, splits := splits qz + 1\<rparr>,
                                                       pq3, i, i + 1))))))"

lemma median_cluster_body_measure:
  "median_cluster_body qz pq c i = Continue (qz', pq', c', i')
     \<Longrightarrow> length (cs qz') - i' < length (cs qz) - i"
  by (auto simp: median_cluster_body_def Let_def split: prod.splits sum.splits if_splits)

function median_cluster_loop ::
  "cluster quantizer \<Rightarrow> nat list \<Rightarrow> nat \<Rightarrow> nat \<Rightarrow> panic + cluster quantizer" where
  "median_cluster_loop qz pq c i =
     (case median_cluster_body qz pq c i of
        Break r \<Rightarrow> r
      | Continue (qz', pq', c', i') \<Rightarrow> median_cluster_loop qz' pq' c' i')"
  by pat_completeness auto
termination
  by (relation "measure (\<lambda>(qz, pq, c, i). length (cs qz) - i)")
     (auto dest: median_cluster_body_measure)

definition median_cluster :: "cluster quantizer \<Rightarrow> panic + cluster quantizer" where
  "median_cluster qz = median_cluster_loop qz [] 0 1"


section \<open>Paletted images\<close>

text \<open>
  \<open>color.Color\<close> values: \<open>NoColor\<close> is the nil interface value that \<open>make(color.Palette, n)\<close>
  fills the palette with, \<open>RGBA\<close> is \<open>color.RGBA\<close> and \<open>RGBA64\<close> is \<open>color.RGBA64\<close>.
\<close>

datatype color = NoColor | RGBA u8 u8 u8 u8 | RGBA64 u16 u16 u16 u16

text \<open>
  \<open>image.Paletted\<close> of the standard library, with \<open>NewPaletted\<close> and \<open>SetColorIndex\<close>.
  The palette slice given to \<open>NewPaletted\<close> is shared with the image, so a later
  assignment \<open>cp[i] = \<dots>\<close> in the source is an update of the field \<open>Palette\<close> here.
  \<open>NewPaletted\<close> panics on a rectangle with a negative width or height; its panic on
  a rectangle too large for a pixel buffer is outside the embedding, as for \<open>make\<close>.
\<close>

record paletted =
  Pix :: "u8 list"
  Stride :: int
  Rect :: rectangle
  Palette :: "color list"

definition Dx :: "rectangle \<Rightarrow> int" where
  "Dx r = MaxX r - MinX r"

definition Dy :: "rectangle \<Rightarrow> int" where
  "Dy r = MaxY r - MinY r"

definition NewPaletted :: "rectangle \<Rightarrow> color list \<Rightarrow> panic + paletted" where
  "NewPaletted r p =
     (if Dx r < 0 \<or> Dy r < 0 then Inl MakeSliceLenOutOfRange
      else Inr \<lparr>Pix = replicate (nat (Dx r * Dy r)) 0, Stride = Dx r, Rect = r, Palette = p\<rparr>)"

definition SetColorIndex :: "paletted \<Rightarrow> int \<Rightarrow> int \<Rightarrow> u8 \<Rightarrow> paletted" where
  "SetColorIndex p x y index =
     (if MinX (Rect p) \<le> x \<and> x < MaxX (Rect p) \<and> MinY (Rect p) \<le> y \<and> y < MaxY (Rect p)
      then p\<lparr>Pix := (Pix p)[nat ((y - MinY (Rect p)) * Stride p + (x - MinX (Rect p))) := index]\<rparr>
      else p)"

subsection \<open>paletted\<close>

text \<open>
  The body of the loop of \<open>paletted\<close> for one cluster: the sums are \<open>int64\<close>, here \<open>int\<close>;
  \<open>n64 = int64(len(px) << 8)\<close>; the divisions panic when \<open>n64\<close> is zero.
\<close>

definition average_color :: "image \<Rightarrow> point list \<Rightarrow> panic + color" where
  "average_color im ps =
     (let rsum = sum_list (map (\<lambda>p. case RGBA_at im p of (r, g, b) \<Rightarrow> uint r) ps);
          gsum = sum_list (map (\<lambda>p. case RGBA_at im p of (r, g, b) \<Rightarrow> uint g) ps);
          bsum = sum_list (map (\<lambda>p. case RGBA_at im p of (r, g, b) \<Rightarrow> uint b) ps);
          n64 = int (length ps) * 256
      in if n64 = 0 then Inl IntegerDivideByZero
         else Inr (RGBA (word_of_int (rsum div n64)) (word_of_int (gsum div n64))
                        (word_of_int (bsum div n64)) 0xff))"

text \<open>\<open>for _, p := range px { pi.SetColorIndex(int(p.x), int(p.y), uint8(i)) }\<close>\<close>

definition set_pixels :: "point list \<Rightarrow> nat \<Rightarrow> paletted \<Rightarrow> paletted" where
  "set_pixels ps i pi =
     fold (\<lambda>p pi. SetColorIndex pi (sint (fst p)) (sint (snd p)) (word_of_nat i)) ps pi"

text \<open>
  \<open>for i := range qz.cs\<close>, from cluster \<open>i\<close> on.  The functions \<open>paletted\<close> of package
  median and of package mean are the same text.
\<close>

fun paletted_loop ::
  "image \<Rightarrow> point list \<Rightarrow> ('a cluster_scheme) list \<Rightarrow> nat \<Rightarrow> paletted \<Rightarrow> panic + paletted" where
  "paletted_loop im arr [] i pi = Inr pi"
| "paletted_loop im arr (c # rest) i pi =
     (case average_color im (slice_elems arr (px c)) of
        Inl e \<Rightarrow> Inl e
      | Inr col \<Rightarrow>
          paletted_loop im arr rest (i + 1)
            (set_pixels (slice_elems arr (px c)) i (pi\<lparr>Palette := (Palette pi)[i := col]\<rparr>)))"

definition paletted_of :: "('a cluster_scheme) quantizer \<Rightarrow> panic + paletted" where
  "paletted_of qz =
     (case NewPaletted (Bounds (img qz)) (replicate (length (cs qz)) NoColor) of
        Inl e \<Rightarrow> Inl e
      | Inr pi \<Rightarrow> paletted_loop (img qz) (pxs qz) (cs qz) 0 pi)"

definition median_paletted :: "cluster quantizer \<Rightarrow> panic + paletted" where
  "median_paletted qz = paletted_of qz"

subsection \<open>Quantize\<close>

definition median_Quantize :: "image \<Rightarrow> int \<Rightarrow> panic + paletted" where
  "median_Quantize im n =
     (case median_newQuantizer im n of
        Inl e \<Rightarrow> Inl e
      | Inr qz \<Rightarrow>
          (case median_cluster qz of
             Inl e \<Rightarrow> Inl e
           | Inr qz' \<Rightarrow> median_paletted qz'))"

section \<open>Package mean\<close>

text \<open>
  \<open>type cluster struct\<close> of package mean: the fields of median's cluster and \<open>min\<close>,
  \<open>max\<close>, \<open>volume\<close>, \<open>priority\<close> (\<open>cmin\<close> and \<open>cmax\<close> here).
\<close>

record mean_cluster = cluster +
  cmin :: u32
  cmax :: u32
  volume :: u64
  priority :: int

definition zero_cluster :: mean_cluster where
  "zero_cluster = \<lparr>px = \<lparr>off = 0, len = 0\<rparr>, widestCh = wr,
                    cmin = 0, cmax = 0, volume = 0, priority = 0\<rparr>"

subsection \<open>newQuantizer\<close>

definition mean_newQuantizer :: "image \<Rightarrow> int \<Rightarrow> panic + mean_cluster quantizer" where
  "mean_newQuantizer im n =
     (if n < 1 then Inr \<lparr>img = im, pxs = [], cs = [], splits = 0\<rparr>
      else
        let b = Bounds im;
            npx = (MaxX b - MinX b) * (MaxY b - MinY b)
        in if npx < 0 then Inl MakeSliceLenOutOfRange
           else Inr \<lparr>img = im, pxs = make_px b npx,
                     cs = (replicate (nat n) zero_cluster)
                            [0 := zero_cluster\<lparr>px := \<lparr>off = 0, len = nat npx\<rparr>\<rparr>],
                     splits = 0\<rparr>)"

subsection \<open>setPriority\<close>

text \<open>\<open>int(uint64(p) * (volume >> 16) >> 29)\<close>; \<open>*\<close> and \<open>>>\<close> associate to the left.\<close>

definition late_priority :: "int \<Rightarrow> u64 \<Rightarrow> int" where
  "late_priority p v = sint (drop_bit 29 ((word_of_int p :: u64) * drop_bit 16 v))"

definition mean_setPriority ::
  "image \<Rightarrow> point list \<Rightarrow> mean_cluster \<Rightarrow> bool \<Rightarrow> mean_cluster" where
  "mean_setPriority im arr c early =
     (let e = find_extents im (slice_elems arr (px c));
          vol = (ucast (maxR e - minR e) :: u64) * ucast (maxG e - minG e)
                  * ucast (maxB e - minB e);
          p = int (len (px c))
      in case widest e of
           (w, mn, mx) \<Rightarrow>
             c\<lparr>widestCh := w, cmin := mn, cmax := mx, volume := vol,
               priority := (if early then p else late_priority p vol)\<rparr>)"

subsection \<open>cutValue\<close>

definition mean_cutValue ::
  "image \<Rightarrow> point list \<Rightarrow> mean_cluster \<Rightarrow> bool \<Rightarrow> panic + u32" where
  "mean_cutValue im arr c early =
     (let sum = sum_list (map (\<lambda>p. (ucast (chan (widestCh c) (RGBA_at im p)) :: u64))
                              (slice_elems arr (px c)))
      in if len (px c) = 0 then Inl IntegerDivideByZero
         else
           let mean = (ucast (sum div word_of_nat (len (px c))) :: u32)
           in Inr (if early
                   then (if cmax c - mean > mean - cmin c then (mean + cmax c) div 2
                         else (mean + cmin c) div 2)
                   else mean))"

subsection \<open>split\<close>

definition mean_split ::
  "image \<Rightarrow> point list \<Rightarrow> mean_cluster \<Rightarrow> mean_cluster \<Rightarrow> u32
     \<Rightarrow> point list \<times> mean_cluster \<times> mean_cluster" where
  "mean_split im arr s c m =
     (case split_loop (\<lambda>p. let v = chan (widestCh s) (RGBA_at im p)
                            in v < m \<or> m = cmin s \<and> v = m)
             (off (px s)) arr 0 (int (len (px s)) - 1) of
        (arr', i) \<Rightarrow>
          (case split_slices (px s) i of
             (lo, hi) \<Rightarrow> (arr', s\<lparr>px := lo\<rparr>, c\<lparr>px := hi\<rparr>)))"

subsection \<open>cluster\<close>

text \<open>
  The scan for the cluster to split: \<open>for x := 0; x <= cx; x++\<close>, with \<open>sx\<close> and \<open>maxP\<close>
  starting at \<open>-1\<close> and \<open>0\<close>.
\<close>

definition select_cluster :: "mean_cluster list \<Rightarrow> nat \<Rightarrow> int" where
  "select_cluster cl cx =
     fst (fold (\<lambda>x (sx, maxP).
                  if cmax (cl ! x) > cmin (cl ! x) \<and> priority (cl ! x) > maxP
                  then (int x, priority (cl ! x)) else (sx, maxP))
               [0 ..< cx + 1] (-1, 0))"

text \<open>The change of priorities when \<open>cx == half\<close>: \<open>for x := 0; x < cx; x++\<close>.\<close>

definition change_priorities :: "mean_cluster list \<Rightarrow> nat \<Rightarrow> mean_cluster list" where
  "change_priorities cl cx =
     map (\<lambda>c. c\<lparr>priority := late_priority (priority c) (volume c)\<rparr>) (take cx cl) @ drop cx cl"

text \<open>
  The body of the loop of \<open>cluster\<close>.  The variable \<open>c\<close> always points to \<open>cs[cx]\<close>;
  \<open>half\<close> is \<open>len(cs) / 2\<close>.  The local slice \<open>cs\<close> keeps its length when \<open>qz.cs\<close> is cut.
\<close>

definition mean_cluster_body ::
  "mean_cluster quantizer \<Rightarrow> nat
     \<Rightarrow> (panic + mean_cluster quantizer, mean_cluster quantizer \<times> nat) loop" where
  "mean_cluster_body qz cx =
     (let half = length (cs qz) div 2;
          cs1 = (cs qz)[cx := mean_setPriority (img qz) (pxs qz) (cs qz ! cx) (cx < half)];
          sx = select_cluster cs1 cx
      in if sx < 0 then Break (Inr (qz\<lparr>cs := take (cx + 1) cs1\<rparr>))
         else
           (case mean_cutValue (img qz) (pxs qz) (cs1 ! nat sx) (cx < half) of
              Inl e \<Rightarrow> Break (Inl e)
            | Inr m \<Rightarrow>
                if cx + 1 \<ge> length cs1 then Break (Inl IndexOutOfRange)
                else
                  (case mean_split (img qz) (pxs qz) (cs1 ! nat sx) (cs1 ! (cx + 1)) m of
                     (arr2, s2, c2) \<Rightarrow>
                       let cs2 = cs1[nat sx := s2, cx + 1 := c2]
                       in if cx + 1 = length cs2 - 1
                          then Break (Inr (qz\<lparr>pxs := arr2, cs := cs2, splits := splits qz + 1\<rparr>))
                          else
                            let cs3 = (if cx + 1 = half then change_priorities cs2 (cx + 1)
                                       else cs2);
                                cs4 = cs3[nat sx := mean_setPriority (img qz) arr2 (cs3 ! nat sx)
                                                      (cx + 1 < half)]
                            in Continue (qz\<lparr>pxs := arr2, cs := cs4, splits := splits qz + 1\<rparr>, cx + 1))))"

lemma mean_cluster_body_measure:
  "mean_cluster_body qz cx = Continue (qz', cx')
     \<Longrightarrow> length (cs qz') - cx' < length (cs qz) - cx"
  by (auto simp: mean_cluster_body_def Let_def change_priorities_def
           split: prod.splits sum.splits if_splits)

function mean_cluster_loop ::
  "mean_cluster quantizer \<Rightarrow> nat \<Rightarrow> panic + mean_cluster quantizer" where
  "mean_cluster_loop qz cx =
     (case mean_cluster_body qz cx of
        Break r \<Rightarrow> r
      | Continue (qz', cx') \<Rightarrow> mean_cluster_loop qz' cx')"
  by pat_completeness auto
termination
  by (relation "measure (\<lambda>(qz, cx). length (cs qz) - cx)")
     (auto dest: mean_cluster_body_measure)

definition mean_cluster :: "mean_cluster quantizer \<Rightarrow> panic + mean_cluster quantizer" where
  "mean_cluster qz =
     (if cs qz = [] then Inl IndexOutOfRange else mean_cluster_loop qz 0)"

definition mean_paletted :: "mean_cluster quantizer \<Rightarrow> panic + paletted" where
  "mean_paletted qz = paletted_of qz"

subsection \<open>Image\<close>

definition mean_Image :: "image \<Rightarrow> int \<Rightarrow> panic + paletted" where
  "mean_Image im n0 =
     (let n = (if n0 > 256 then 256 else n0)
      in case mean_newQuantizer im n of
           Inl e \<Rightarrow> Inl e
         | Inr qz \<Rightarrow>
             (case (if n > 1 then mean_cluster qz else Inr qz) of
                Inl e \<Rightarrow> Inl e
              | Inr qz' \<Rightarrow> mean_paletted qz'))"


section \<open>Nearest colour: the linear palette and the palette tree\<close>

subsection \<open>sPalette.index\<close>

text \<open>\<open>type sRGB struct{ r, g, b int32 }\<close>\<close>

type_synonym sRGB = "i32 \<times> i32 \<times> i32"

text \<open>
  The sum of squares computed in the loop body: each difference is taken in \<open>int32\<close>
  and converted to \<open>int64\<close>, the squares are added in \<open>int64\<close>.
\<close>

fun sq_dist :: "sRGB \<Rightarrow> sRGB \<Rightarrow> 64 word" where
  "sq_dist (cr, cg, cb) (pr, pg, pb) =
     (let d = (scast (cr - pr) :: 64 word);
          s = d * d;
          d = (scast (cg - pg) :: 64 word);
          s = s + d * d;
          d = (scast (cb - pb) :: 64 word);
          s = s + d * d
      in s)"

text \<open>\<open>for j, pc := range p\<close> from entry \<open>j\<close> on; \<open>s < min\<close> compares \<open>int64\<close> values.\<close>

fun index_loop :: "sRGB list \<Rightarrow> sRGB \<Rightarrow> int \<Rightarrow> int \<Rightarrow> 64 word \<Rightarrow> int" where
  "index_loop [] c j i mn = i"
| "index_loop (pc # p) c j i mn =
     (if word_sless (sq_dist c pc) mn then index_loop p c (j + 1) j (sq_dist c pc)
      else index_loop p c (j + 1) i mn)"

definition sPalette_index :: "sRGB list \<Rightarrow> sRGB \<Rightarrow> int" where
  "sPalette_index p c = index_loop p c 0 0 0x7FFFFFFFFFFFFFFF"

subsection \<open>TreePalette\<close>

text \<open>
  A \<open>*TreePalette\<close> is \<open>TNil\<close> (the nil pointer) or a node with the fields of the struct.
  The datatype holds the finite trees only; a pointer structure with a cycle is not
  modelled.
\<close>

type_synonym RGBA64_struct = "u16 \<times> u16 \<times> u16 \<times> u16"

datatype TreePalette =
  TNil
| TNode (Type: int) (Index: int) (Color: RGBA64_struct) (Split: u32)
    (Low: TreePalette) (High: TreePalette)

definition TLeaf :: int where "TLeaf = 0"
definition TSplitR :: int where "TSplitR = 1"
definition TSplitG :: int where "TSplitG = 2"
definition TSplitB :: int where "TSplitB = 3"

text \<open>
  The closure \<open>s\<close> of \<open>search\<close>.  \<open>lt\<close> is declared outside the closure and keeps its
  value when \<open>t.Type\<close> is none of the four constants.  Reading \<open>t.Type\<close> through a nil
  pointer panics.  The result is the leaf that \<open>f\<close> is called with.
\<close>

fun search_s :: "rgb \<Rightarrow> bool \<Rightarrow> TreePalette \<Rightarrow> panic + TreePalette" where
  "search_s c lt TNil = Inl NilDereference"
| "search_s c lt (TNode ty ix col sp lo hi) =
     (if ty = TLeaf then Inr (TNode ty ix col sp lo hi)
      else
        let lt' = (case c of (r, g, b) \<Rightarrow>
                     if ty = TSplitR then r < sp
                     else if ty = TSplitG then g < sp
                     else if ty = TSplitB then b < sp
                     else lt)
        in if lt' then search_s c lt' lo else search_s c lt' hi)"

definition search :: "TreePalette \<Rightarrow> rgb \<Rightarrow> panic + TreePalette" where
  "search t c = search_s c False t"

definition TreePalette_IndexNear :: "TreePalette \<Rightarrow> rgb \<Rightarrow> panic + int" where
  "TreePalette_IndexNear t c =
     (if t = TNil then Inr (- 1)
      else case search t c of Inl e \<Rightarrow> Inl e | Inr leaf \<Rightarrow> Inr (Index leaf))"

text \<open>The leaves in the order of \<open>walk\<close> in \<open>ColorPalette\<close>.\<close>

fun leaves :: "TreePalette \<Rightarrow> TreePalette list" where
  "leaves TNil = []"
| "leaves (TNode ty ix col sp lo hi) =
     (if ty = TLeaf then [TNode ty ix col sp lo hi] else leaves lo @ leaves hi)"

section \<open>Dithering\<close>

text \<open>The method \<open>RGBA\<close> of a colour, without alpha; on the nil interface value it panics.\<close>

fun color_RGBA :: "color \<Rightarrow> panic + rgb" where
  "color_RGBA NoColor = Inl NilDereference"
| "color_RGBA (RGBA r g b a) =
     Inr (ucast r OR push_bit 8 (ucast r), ucast g OR push_bit 8 (ucast g),
          ucast b OR push_bit 8 (ucast b))"
| "color_RGBA (RGBA64 r g b a) = Inr (ucast r, ucast g, ucast b)"

text \<open>A loop whose body may panic: the first panic ends it.\<close>

fun for_each :: "('a \<Rightarrow> 's \<Rightarrow> panic + 's) \<Rightarrow> 'a list \<Rightarrow> 's \<Rightarrow> panic + 's" where
  "for_each f [] s = Inr s"
| "for_each f (x # xs) s = (case f x s of Inl e \<Rightarrow> Inl e | Inr s' \<Rightarrow> for_each f xs s')"

text \<open>Reading and writing \<open>dn[k]\<close> with Go's index check.\<close>

definition in_range :: "'a list \<Rightarrow> int \<Rightarrow> bool" where
  "in_range xs k = (0 \<le> k \<and> k < int (length xs))"

subsection \<open>Dither (unsigned accumulators)\<close>

type_synonym rgb16 = "u16 \<times> u16 \<times> u16"

text \<open>
  The state of a dithering pass: the error carried to the right (\<open>rt\<close>), the buffer for
  the next row (\<open>dn\<close>) and the image being written (\<open>pi\<close>).  \<open>'e\<close> is the type of an
  error: three \<open>uint16\<close> in \<open>Dither\<close>, three \<open>int\<close> in \<open>dither211\<close>.
\<close>

record 'e dither_state =
  rt :: 'e
  dn :: "'e list"
  pi :: paletted

text \<open>One channel of the adjusted colour: \<open>r0 += uint32(rt.R)\<close>, the clamp, \<open>uint16(r0)\<close>.\<close>

definition adjust :: "u32 \<Rightarrow> u16 \<Rightarrow> u16" where
  "adjust r0 e = (let r = r0 + ucast e in ucast (if r > 0xffff then 0xffff else r))"

text \<open>One channel of the error that goes right, from the adjusted value and \<open>uint16(pr)\<close>.\<close>

definition right_error :: "u16 \<Rightarrow> u32 \<Rightarrow> u16" where
  "right_error a pr = (if (ucast pr :: u16) > a then 0 else (a - ucast pr) div 2)"

text \<open>The adjusted colour of the pixel at \<open>(x, y)\<close>: \<open>rt\<close> after the three assignments.\<close>

definition adjusted :: "image \<Rightarrow> int \<Rightarrow> int \<Rightarrow> rgb16 dither_state \<Rightarrow> rgb16" where
  "adjusted i0 y x st =
     (case At i0 x y of (r0, g0, b0) \<Rightarrow>
      case rt st of (eR, eG, eB) \<Rightarrow> (adjust r0 eR, adjust g0 eG, adjust b0 eB))"

text \<open>
  The body of the inner loop of \<open>Dither\<close> at \<open>(x, y)\<close>.  \<open>Palette_Index\<close> is \<open>color.Palette.Index\<close> of
  the standard library, a parameter here.  The buffer is indexed with \<open>x\<close> itself.
\<close>

definition Dither_pixel ::
  "(color list \<Rightarrow> color \<Rightarrow> int) \<Rightarrow> color list \<Rightarrow> image \<Rightarrow> int \<Rightarrow> int
     \<Rightarrow> rgb16 dither_state \<Rightarrow> panic + rgb16 dither_state" where
  "Dither_pixel Palette_Index cp i0 y x st =
     (case adjusted i0 y x st of (aR, aG, aB) \<Rightarrow>
        let i = Palette_Index cp (RGBA64 aR aG aB 0);
            pi' = SetColorIndex (pi st) x y (word_of_int i)
        in if \<not> in_range cp i then Inl IndexOutOfRange
           else
             (case color_RGBA (cp ! nat i) of
                Inl e \<Rightarrow> Inl e
              | Inr (pr, pg, pb) \<Rightarrow>
                  let rt' = (right_error aR pr, right_error aG pg, right_error aB pb)
                  in if \<not> in_range (dn st) (x + 1) \<or> \<not> in_range (dn st) x
                     then Inl IndexOutOfRange
                     else
                       (case rt' of (tR, tG, tB) \<Rightarrow>
                          let d1 = (tR div 2, tG div 2, tB div 2);
                              dn1 = (dn st)[nat (x + 1) := d1]
                          in case dn1 ! nat x of (dR, dG, dB) \<Rightarrow>
                               Inr \<lparr>rt = rt',
                                    dn = dn1[nat x := (dR + tR div 2, dG + tG div 2, dB + tB div 2)],
                                    pi = pi'\<rparr>)))"

text \<open>The body of the outer loop: \<open>rt = dn[0]\<close>, \<open>dn[0] = color.RGBA64{}\<close>, then the row.\<close>

definition Dither_row ::
  "(color list \<Rightarrow> color \<Rightarrow> int) \<Rightarrow> color list \<Rightarrow> image \<Rightarrow> int
     \<Rightarrow> rgb16 dither_state \<Rightarrow> panic + rgb16 dither_state" where
  "Dither_row Palette_Index cp i0 y st =
     (if \<not> in_range (dn st) 0 then Inl IndexOutOfRange
      else for_each (Dither_pixel Palette_Index cp i0 y)
             [MinX (Bounds i0) .. MaxX (Bounds i0) - 1]
             (st\<lparr>rt := dn st ! 0, dn := (dn st)[0 := (0, 0, 0)]\<rparr>))"

text \<open>\<open>Dither\<close>; the result \<open>None\<close> is the nil pointer returned for a palette of more than
  256 colours.\<close>

definition Dither ::
  "(color list \<Rightarrow> color \<Rightarrow> int) \<Rightarrow> image \<Rightarrow> color list \<Rightarrow> panic + paletted option" where
  "Dither Palette_Index i0 cp =
     (if length cp > 256 then Inr None
      else
        let b = Bounds i0
        in case NewPaletted b cp of
             Inl e \<Rightarrow> Inl e
           | Inr p0 \<Rightarrow>
               if MaxY b - MinY b = 0 \<or> MaxX b - MinX b = 0 then Inr (Some p0)
               else if MaxX b - MinX b + 1 < 0 then Inl MakeSliceLenOutOfRange
               else
                 (case for_each (Dither_row Palette_Index cp i0) [MinY b .. MaxY b - 1]
                         \<lparr>rt = (0, 0, 0),
                          dn = replicate (nat (MaxX b - MinX b + 1)) (0, 0, 0),
                          pi = p0\<rparr> of
                    Inl e \<Rightarrow> Inl e
                  | Inr st \<Rightarrow> Inr (Some (pi st))))"


subsection \<open>dither211 (signed accumulators)\<close>

type_synonym diffusedError = "int \<times> int \<times> int"

text \<open>One channel of the adjusted colour: \<open>rt.r += int(r0)\<close> and the two limits.\<close>

definition adjust211 :: "u32 \<Rightarrow> int \<Rightarrow> int" where
  "adjust211 r0 e = (let r = e + uint r0 in if r < 0 then 0 else if r > 0xffff then 0xffff else r)"

text \<open>The adjusted colour of the pixel at \<open>(x, y)\<close>, after the limits.\<close>

definition adjusted211 :: "image \<Rightarrow> int \<Rightarrow> int \<Rightarrow> diffusedError dither_state \<Rightarrow> diffusedError" where
  "adjusted211 i0 y x st =
     (case At i0 x y of (r0, g0, b0) \<Rightarrow>
      case rt st of (tR, tG, tB) \<Rightarrow> (adjust211 r0 tR, adjust211 g0 tG, adjust211 b0 tB))"

text \<open>\<open>afc := color.RGBA64{uint16(rt.r), uint16(rt.g), uint16(rt.b), 0}\<close>\<close>

definition afc211 :: "diffusedError \<Rightarrow> color" where
  "afc211 a = (case a of (aR, aG, aB) \<Rightarrow> RGBA64 (word_of_int aR) (word_of_int aG) (word_of_int aB) 0)"

text \<open>
  The body of the inner loop of \<open>dither211\<close> at \<open>(x, y)\<close>.  \<open>/\<close> on \<open>int\<close> truncates towards
  zero (\<open>sdiv\<close>).  The buffer is indexed with \<open>dx = x - b.Min.X\<close>.
\<close>

definition dither211_pixel ::
  "(color list \<Rightarrow> color \<Rightarrow> int) \<Rightarrow> color list \<Rightarrow> image \<Rightarrow> int \<Rightarrow> int
     \<Rightarrow> diffusedError dither_state \<Rightarrow> panic + diffusedError dither_state" where
  "dither211_pixel Palette_Index cp i0 y x st =
     (case adjusted211 i0 y x st of (aR, aG, aB) \<Rightarrow>
        let i = Palette_Index cp (afc211 (aR, aG, aB));
            pi' = SetColorIndex (pi st) x y (word_of_int i)
        in if \<not> in_range cp i then Inl IndexOutOfRange
           else
             (case color_RGBA (cp ! nat i) of
                Inl e \<Rightarrow> Inl e
              | Inr (pr, pg, pb) \<Rightarrow>
                  let eR = aR - uint pr; eG = aG - uint pg; eB = aB - uint pb;
                      rtR = eR sdiv 2; rtG = eG sdiv 2; rtB = eB sdiv 2;
                      eR = eR - rtR; eG = eG - rtG; eB = eB - rtB;
                      dx = x - MinX (Bounds i0)
                  in if \<not> in_range (dn st) (dx + 1) \<or> \<not> in_range (dn st) dx
                     then Inl IndexOutOfRange
                     else
                       let d1 = (eR sdiv 2, eG sdiv 2, eB sdiv 2);
                           dn1 = (dn st)[nat (dx + 1) := d1]
                       in case dn1 ! nat dx of (dR, dG, dB) \<Rightarrow>
                            Inr \<lparr>rt = (rtR, rtG, rtB),
                                 dn = dn1[nat dx := (dR + (eR - eR sdiv 2), dG + (eG - eG sdiv 2),
                                                    dB + (eB - eB sdiv 2))],
                                 pi = pi'\<rparr>))"

definition dither211_row ::
  "(color list \<Rightarrow> color \<Rightarrow> int) \<Rightarrow> color list \<Rightarrow> image \<Rightarrow> int
     \<Rightarrow> diffusedError dither_state \<Rightarrow> panic + diffusedError dither_state" where
  "dither211_row Palette_Index cp i0 y st =
     (if \<not> in_range (dn st) 0 then Inl IndexOutOfRange
      else for_each (dither211_pixel Palette_Index cp i0 y)
             [MinX (Bounds i0) .. MaxX (Bounds i0) - 1]
             (st\<lparr>rt := dn st ! 0, dn := (dn st)[0 := (0, 0, 0)]\<rparr>))"

definition dither211 ::
  "(color list \<Rightarrow> color \<Rightarrow> int) \<Rightarrow> image \<Rightarrow> color list \<Rightarrow> panic + paletted option" where
  "dither211 Palette_Index i0 cp =
     (if length cp > 256 then Inr None
      else
        let b = Bounds i0
        in case NewPaletted b cp of
             Inl e \<Rightarrow> Inl e
           | Inr p0 \<Rightarrow>
               if MaxY b - MinY b = 0 \<or> MaxX b - MinX b = 0 then Inr (Some p0)
               else if MaxX b - MinX b + 1 < 0 then Inl MakeSliceLenOutOfRange
               else
                 (case for_each (dither211_row Palette_Index cp i0) [MinY b .. MaxY b - 1]
                         \<lparr>rt = (0, 0, 0),
                          dn = replicate (nat (MaxX b - MinX b + 1)) (0, 0, 0),
                          pi = p0\<rparr> of
                    Inl e \<Rightarrow> Inl e
                  | Inr st \<Rightarrow> Inr (Some (pi st))))"

declare median_cluster_loop.simps [simp del]
declare mean_cluster_loop.simps [simp del]
declare split_loop.simps [simp del]
declare heap_up.simps [simp del]
declare heap_down.simps [simp del]
declare inc_m2.simps [simp del]

section \<open>Notions used to state the properties\<close>

text \<open>
  The squared Euclidean distance of two colours over red, green and blue, on the integer
  values of the channels, as the specification words it; \<open>sq_dist\<close> is what the source
  computes in machine arithmetic.
\<close>

definition sq_euclid :: "sRGB \<Rightarrow> sRGB \<Rightarrow> int" where
  "sq_euclid c pc = (case c of (cr, cg, cb) \<Rightarrow> case pc of (pr, pg, pb) \<Rightarrow>
     (sint cr - sint pr)\<^sup>2 + (sint cg - sint pg)\<^sup>2 + (sint cb - sint pb)\<^sup>2)"

text \<open>A colour whose channels lie in the range 0 to \<open>0xffff\<close> of \<open>color.RGBA64\<close>.\<close>

definition in_gamut :: "sRGB \<Rightarrow> bool" where
  "in_gamut c = (case c of (r, g, b) \<Rightarrow> r \<le> 0xffff \<and> g \<le> 0xffff \<and> b \<le> 0xffff)"

text \<open>
  A tree in which the descent cannot meet a nil pointer: it is not nil, and every node
  that is not a leaf has two such subtrees.
\<close>

fun wf_tree :: "TreePalette \<Rightarrow> bool" where
  "wf_tree TNil = False"
| "wf_tree (TNode ty ix col sp lo hi) = (ty = TLeaf \<or> wf_tree lo \<and> wf_tree hi)"

text \<open>
  The leaves of a tree correspond one-to-one to the entries of a palette: the pairs of
  index and colour of the leaves are the pairs of position and colour of the palette.
\<close>

definition leaf_entry :: "TreePalette \<Rightarrow> int \<times> sRGB" where
  "leaf_entry l = (Index l, case Color l of (r, g, b, a) \<Rightarrow> (ucast r, ucast g, ucast b))"

definition tree_matches :: "TreePalette \<Rightarrow> sRGB list \<Rightarrow> bool" where
  "tree_matches t p = (mset (map leaf_entry (leaves t)) = mset (zip (map int [0 ..< length p]) p))"




text \<open>
  What \<open>setWidestChannel\<close> returns for a list of points, and what \<open>c.max > c.min\<close> is
  after \<open>setPriority\<close>: the widest channel has a range above zero.
\<close>

definition can_split :: "image \<Rightarrow> point list \<Rightarrow> bool" where
  "can_split im ps = (case widest (find_extents im ps) of (w, mn, mx) \<Rightarrow> mx > mn)"


text \<open>
  The slices \<open>ss\<close> tile an array of length \<open>n\<close>: every index below \<open>n\<close> lies in exactly
  one of them, and each of them ends within the array.
\<close>

definition tiles :: "nat \<Rightarrow> slice list \<Rightarrow> bool" where
  "tiles n ss = (mset (concat (map slice_idxs ss)) = mset [0 ..< n]
                 \<and> (\<forall>s \<in> set ss. off s + len s \<le> n))"


section \<open>The stages of the loop bodies and the loop invariants\<close>

text \<open>The stages of one pass through the loop body of median's cluster.\<close>

definition m_cs1 :: "cluster quantizer \<Rightarrow> nat \<Rightarrow> cluster list" where
  "m_cs1 qz c = (cs qz)[c := fst (median_setWidestChannel (img qz) (pxs qz) (cs qz ! c))]"

definition m_pq1 :: "cluster quantizer \<Rightarrow> nat list \<Rightarrow> nat \<Rightarrow> nat list" where
  "m_pq1 qz pq c = (if can_split (img qz) (slice_elems (pxs qz) (px (cs qz ! c)))
                    then heap_Push (m_cs1 qz c) pq c else pq)"

definition m_s :: "cluster quantizer \<Rightarrow> nat list \<Rightarrow> nat \<Rightarrow> nat" where
  "m_s qz pq c = fst (heap_Pop (m_cs1 qz c) (m_pq1 qz pq c))"

definition m_pq2 :: "cluster quantizer \<Rightarrow> nat list \<Rightarrow> nat \<Rightarrow> nat list" where
  "m_pq2 qz pq c = snd (heap_Pop (m_cs1 qz c) (m_pq1 qz pq c))"

definition m_split ::
  "cluster quantizer \<Rightarrow> nat list \<Rightarrow> nat \<Rightarrow> nat \<Rightarrow> u32 \<Rightarrow> point list \<times> cluster \<times> cluster" where
  "m_split qz pq c i m =
     median_split (img qz) (pxs qz) (m_cs1 qz c ! m_s qz pq c) (m_cs1 qz c ! i) m"

definition m_cs2 :: "cluster quantizer \<Rightarrow> nat list \<Rightarrow> nat \<Rightarrow> nat \<Rightarrow> u32 \<Rightarrow> cluster list" where
  "m_cs2 qz pq c i m =
     (m_cs1 qz c)[m_s qz pq c := fst (snd (m_split qz pq c i m)), i := snd (snd (m_split qz pq c i m))]"

definition m_cs3 :: "cluster quantizer \<Rightarrow> nat list \<Rightarrow> nat \<Rightarrow> nat \<Rightarrow> u32 \<Rightarrow> cluster list" where
  "m_cs3 qz pq c i m =
     (m_cs2 qz pq c i m)[m_s qz pq c :=
        fst (median_setWidestChannel (img qz) (fst (m_split qz pq c i m)) (m_cs2 qz pq c i m ! m_s qz pq c))]"

definition m_pq3 :: "cluster quantizer \<Rightarrow> nat list \<Rightarrow> nat \<Rightarrow> nat \<Rightarrow> u32 \<Rightarrow> nat list" where
  "m_pq3 qz pq c i m =
     (if can_split (img qz) (slice_elems (fst (m_split qz pq c i m)) (px (m_cs2 qz pq c i m ! m_s qz pq c)))
      then heap_Push (m_cs3 qz pq c i m) (m_pq2 qz pq c) (m_s qz pq c) else m_pq2 qz pq c)"

text \<open>The test of median's \<open>split\<close> for the low side, for the cluster and the cut value at hand.\<close>

definition m_low :: "cluster quantizer \<Rightarrow> nat list \<Rightarrow> nat \<Rightarrow> u32 \<Rightarrow> point \<Rightarrow> bool" where
  "m_low qz pq c m = (\<lambda>p. chan (widestCh (m_cs1 qz c ! m_s qz pq c)) (RGBA_at (img qz) p) < m)"

text \<open>
  The invariant of the loop of median's \<open>cluster\<close> that gives the partition: the pixel
  array is a permutation of the array \<open>arr0\<close> the run started with, the slices of the
  \<open>i\<close> clusters in use tile it, the queue holds clusters in use only, and \<open>i\<close> is one
  more than the number of splits.
\<close>

definition median_inv1 ::
  "image \<Rightarrow> point list \<Rightarrow> cluster quantizer \<Rightarrow> nat list \<Rightarrow> nat \<Rightarrow> nat \<Rightarrow> bool" where
  "median_inv1 im arr0 qz pq c i =
     (img qz = im \<and> mset (pxs qz) = mset arr0 \<and> c < i \<and> i \<le> length (cs qz)
      \<and> tiles (length (pxs qz)) (map px (take i (cs qz))) \<and> set pq \<subseteq> {..<i}
      \<and> splits qz + 1 = i)"

text \<open>
  What the invariant gives for a returned quantizer: its clusters tile a permutation of
  \<open>arr0\<close>, and their number is one more than the number of splits and at most \<open>n\<close>.
\<close>

definition partitioned :: "image \<Rightarrow> point list \<Rightarrow> nat \<Rightarrow> ('a cluster_scheme) quantizer \<Rightarrow> bool" where
  "partitioned im arr0 n r =
     (img r = im \<and> mset (pxs r) = mset arr0 \<and> tiles (length (pxs r)) (map px (cs r))
      \<and> length (cs r) = splits r + 1 \<and> length (cs r) \<le> n)"

text \<open>The stages of one pass through the loop body of mean's cluster.\<close>

definition n_early :: "mean_cluster quantizer \<Rightarrow> nat \<Rightarrow> bool" where
  "n_early qz cx = (cx < length (cs qz) div 2)"

definition n_cs1 :: "mean_cluster quantizer \<Rightarrow> nat \<Rightarrow> mean_cluster list" where
  "n_cs1 qz cx = (cs qz)[cx := mean_setPriority (img qz) (pxs qz) (cs qz ! cx) (n_early qz cx)]"

definition n_sx :: "mean_cluster quantizer \<Rightarrow> nat \<Rightarrow> nat" where
  "n_sx qz cx = nat (select_cluster (n_cs1 qz cx) cx)"

definition n_split ::
  "mean_cluster quantizer \<Rightarrow> nat \<Rightarrow> u32 \<Rightarrow> point list \<times> mean_cluster \<times> mean_cluster" where
  "n_split qz cx m =
     mean_split (img qz) (pxs qz) (n_cs1 qz cx ! n_sx qz cx) (n_cs1 qz cx ! (cx + 1)) m"

definition n_cs2 :: "mean_cluster quantizer \<Rightarrow> nat \<Rightarrow> u32 \<Rightarrow> mean_cluster list" where
  "n_cs2 qz cx m =
     (n_cs1 qz cx)[n_sx qz cx := fst (snd (n_split qz cx m)), cx + 1 := snd (snd (n_split qz cx m))]"

definition n_cs3 :: "mean_cluster quantizer \<Rightarrow> nat \<Rightarrow> u32 \<Rightarrow> mean_cluster list" where
  "n_cs3 qz cx m =
     (if cx + 1 = length (cs qz) div 2 then change_priorities (n_cs2 qz cx m) (cx + 1)
      else n_cs2 qz cx m)"

definition n_cs4 :: "mean_cluster quantizer \<Rightarrow> nat \<Rightarrow> u32 \<Rightarrow> mean_cluster list" where
  "n_cs4 qz cx m =
     (n_cs3 qz cx m)[n_sx qz cx :=
        mean_setPriority (img qz) (fst (n_split qz cx m)) (n_cs3 qz cx m ! n_sx qz cx)
          (cx + 1 < length (cs qz) div 2)]"

text \<open>The test of mean's \<open>split\<close> for the low side, for the cluster and the cut value at hand.\<close>

definition n_low :: "mean_cluster quantizer \<Rightarrow> nat \<Rightarrow> u32 \<Rightarrow> point \<Rightarrow> bool" where
  "n_low qz cx m = (\<lambda>p. let v = chan (widestCh (n_cs1 qz cx ! n_sx qz cx)) (RGBA_at (img qz) p)
                         in v < m \<or> m = cmin (n_cs1 qz cx ! n_sx qz cx) \<and> v = m)"

text \<open>The same invariant for the loop of mean's \<open>cluster\<close>, with the clusters \<open>0\<close> to \<open>cx\<close> in use.\<close>

definition mean_inv1 ::
  "image \<Rightarrow> point list \<Rightarrow> mean_cluster quantizer \<Rightarrow> nat \<Rightarrow> bool" where
  "mean_inv1 im arr0 qz cx =
     (img qz = im \<and> mset (pxs qz) = mset arr0 \<and> cx < length (cs qz)
      \<and> tiles (length (pxs qz)) (map px (take (cx + 1) (cs qz))) \<and> splits qz = cx)"

text \<open>The coordinates of the pixels of a rectangle, in scan order.\<close>

definition coordinates :: "rectangle \<Rightarrow> (int \<times> int) list" where
  "coordinates b = concat (map (\<lambda>y. map (\<lambda>x. (x, y)) [MinX b .. MaxX b - 1]) [MinY b .. MaxY b - 1])"

text \<open>A stored point read as the coordinates handed to \<open>At\<close>: \<open>int(p.x), int(p.y)\<close>.\<close>

definition coords :: "point \<Rightarrow> int \<times> int" where
  "coords p = (sint (fst p), sint (snd p))"

text \<open>A well-formed rectangle all of whose pixels have coordinates in the range of \<open>int32\<close>.\<close>

definition fits_int32 :: "rectangle \<Rightarrow> bool" where
  "fits_int32 b = (MinX b \<le> MaxX b \<and> MinY b \<le> MaxY b
      \<and> - (2 ^ 31) \<le> MinX b \<and> MaxX b \<le> 2 ^ 31 \<and> - (2 ^ 31) \<le> MinY b \<and> MaxY b \<le> 2 ^ 31)"

text \<open>The pixel lists of the clusters of a quantizer, as coordinates.\<close>

definition cluster_pixels :: "('a cluster_scheme) quantizer \<Rightarrow> (int \<times> int) list list" where
  "cluster_pixels r = map (\<lambda>c. map coords (slice_elems (pxs r) (px c))) (cs r)"

section \<open>The run of a cluster splitter\<close>

text \<open>
  What \<open>Quantize\<close> of package median does before it calls \<open>paletted\<close>:
  \<open>qz := newQuantizer(img, n); qz.cluster()\<close>.
\<close>

definition median_clusters :: "image \<Rightarrow> int \<Rightarrow> panic + cluster quantizer" where
  "median_clusters im n =
     (case median_newQuantizer im n of Inl e \<Rightarrow> Inl e | Inr qz \<Rightarrow> median_cluster qz)"

text \<open>
  What \<open>Image\<close> of package mean does between the limit of 256 and the call of \<open>paletted\<close>:
  \<open>qz := newQuantizer(img, n); if n > 1 { qz.cluster() }\<close>.
\<close>

definition mean_clusters :: "image \<Rightarrow> int \<Rightarrow> panic + mean_cluster quantizer" where
  "mean_clusters im n =
     (case mean_newQuantizer im n of
        Inl e \<Rightarrow> Inl e
      | Inr qz \<Rightarrow> if n > 1 then mean_cluster qz else Inr qz)"

section \<open>What holds of every cluster during a run\<close>










section \<open>Example inputs\<close>

text \<open>
  Two pixels in one row whose red, green and blue ranges are all equal.
\<close>

definition tie_image :: image where
  "tie_image = \<lparr>Bounds = \<lparr>MinX = 0, MinY = 0, MaxX = 2, MaxY = 1\<rparr>,
                 At = (\<lambda>x y. if x = 0 then (0, 0, 0) else (1, 1, 1))\<rparr>"

text \<open>
  A one-pixel image of colour \<open>(1, 0, 0)\<close>, a palette that holds black only, the index
  function that answers 0, and the states in which a dithering pass starts on that image.
\<close>

definition one_image :: image where
  "one_image = \<lparr>Bounds = \<lparr>MinX = 0, MinY = 0, MaxX = 1, MaxY = 1\<rparr>, At = (\<lambda>x y. (1, 0, 0))\<rparr>"

definition black_palette :: "color list" where
  "black_palette = [RGBA64 0 0 0 0xffff]"

definition first_index :: "color list \<Rightarrow> color \<Rightarrow> int" where
  "first_index cp c = 0"

definition one_paletted :: paletted where
  "one_paletted = \<lparr>Pix = [0], Stride = 1, Rect = \<lparr>MinX = 0, MinY = 0, MaxX = 1, MaxY = 1\<rparr>,
                    Palette = black_palette\<rparr>"

definition Dither_start :: "rgb16 dither_state" where
  "Dither_start = \<lparr>rt = (0, 0, 0), dn = [(0, 0, 0), (0, 0, 0)], pi = one_paletted\<rparr>"

definition dither211_start :: "diffusedError dither_state" where
  "dither211_start = \<lparr>rt = (0, 0, 0), dn = [(0, 0, 0), (0, 0, 0)], pi = one_paletted\<rparr>"

text \<open>
  A palette of two colours and a tree over it: one split on red at 1000 (the value that
  \<open>medianCut\<close> returns for the red values 0 and 1000), with one leaf for each entry.
\<close>

definition two_palette :: "sRGB list" where
  "two_palette = [(0, 0, 0), (1000, 0, 0)]"

definition two_tree :: TreePalette where
  "two_tree = TNode 1 0 (0, 0, 0, 0) 1000
                (TNode 0 0 (0, 0, 0, 0xffff) 0 TNil TNil)
                (TNode 0 1 (1000, 0, 0, 0xffff) 0 TNil TNil)"

text \<open>An image with empty bounds.\<close>

definition empty_image :: image where
  "empty_image = \<lparr>Bounds = \<lparr>MinX = 0, MinY = 0, MaxX = 0, MaxY = 0\<rparr>, At = (\<lambda>x y. (0, 0, 0))\<rparr>"

text \<open>A one-pixel image whose pixel lies at \<open>x = 2\<^sup>3\<^sup>1\<close>, beyond the range of \<open>int32\<close>.\<close>

definition far_image :: image where
  "far_image = \<lparr>Bounds = \<lparr>MinX = 2147483648, MinY = 0, MaxX = 2147483649, MaxY = 1\<rparr>,
                 At = (\<lambda>x y. (0, 0, 0))\<rparr>"






section \<open>The widest channel\<close>

lemma widest_eq:
  "fst (widest e) =
     (if maxR e - minR e \<le> maxG e - minG e \<and> maxB e - minB e \<le> maxG e - minG e then wg
      else if maxB e - minB e \<le> maxR e - minR e then wr else wb)"
  by (auto simp: widest_def Let_def not_less)

lemma median_widestCh:
  "widestCh (fst (median_setWidestChannel im arr c)) =
     fst (widest (find_extents im (slice_elems arr (px c))))"
  by (simp add: median_setWidestChannel_def split: prod.splits)

lemma mean_widestCh:
  "widestCh (mean_setPriority im arr c early) =
     fst (widest (find_extents im (slice_elems arr (px c))))"
  by (simp add: mean_setPriority_def Let_def split: prod.splits)

lemma tie_image_extents:
  "find_extents tie_image (slice_elems [(0, 0), (1, 0)] \<lparr>off = 0, len = 2\<rparr>)
     = \<lparr>minR = 0, maxR = 1, minG = 0, maxG = 1, minB = 0, maxB = 1\<rparr>"
  by (simp add: find_extents_def slice_elems_def slice_idxs_def upt_rec extents_step_def
        extents0_def RGBA_at_def tie_image_def)

text \<open>
  Claim C7, as amended.  In \<open>setWidestChannel\<close> (median) and \<open>setPriority\<close> (mean) the
  channels are tried in the order green, red, blue, and a later channel replaces the
  current one only when its range is strictly wider.  So green is chosen when neither red
  nor blue is strictly wider than green, red when it is strictly wider than green and blue
  is not strictly wider than red, and blue otherwise: on equal ranges green wins against
  red and blue, and red wins against blue.
\<close>

theorem widest_channel_ties:
  "widestCh (fst (median_setWidestChannel im arr c)) =
     (let e = find_extents im (slice_elems arr (px c))
      in if maxR e - minR e \<le> maxG e - minG e \<and> maxB e - minB e \<le> maxG e - minG e then wg
         else if maxB e - minB e \<le> maxR e - minR e then wr else wb)
   \<and> widestCh (mean_setPriority im arr c' early) =
     (let e = find_extents im (slice_elems arr (px c'))
      in if maxR e - minR e \<le> maxG e - minG e \<and> maxB e - minB e \<le> maxG e - minG e then wg
         else if maxB e - minB e \<le> maxR e - minR e then wr else wb)"
  unfolding median_widestCh mean_widestCh Let_def widest_eq by (rule conjI; rule refl)

text \<open>
  Claim C7 as stated fails: in \<open>tie_image\<close> the three ranges are equal, and green is
  chosen by both functions, so red does not win the tie with green and blue does not win
  the tie with red.
\<close>

theorem widest_channel_ties_counterexample:
  "maxR (find_extents tie_image (slice_elems [(0, 0), (1, 0)] \<lparr>off = 0, len = 2\<rparr>))
     - minR (find_extents tie_image (slice_elems [(0, 0), (1, 0)] \<lparr>off = 0, len = 2\<rparr>))
   = maxG (find_extents tie_image (slice_elems [(0, 0), (1, 0)] \<lparr>off = 0, len = 2\<rparr>))
     - minG (find_extents tie_image (slice_elems [(0, 0), (1, 0)] \<lparr>off = 0, len = 2\<rparr>))
   \<and> maxB (find_extents tie_image (slice_elems [(0, 0), (1, 0)] \<lparr>off = 0, len = 2\<rparr>))
     - minB (find_extents tie_image (slice_elems [(0, 0), (1, 0)] \<lparr>off = 0, len = 2\<rparr>))
   = maxR (find_extents tie_image (slice_elems [(0, 0), (1, 0)] \<lparr>off = 0, len = 2\<rparr>))
     - minR (find_extents tie_image (slice_elems [(0, 0), (1, 0)] \<lparr>off = 0, len = 2\<rparr>))
   \<and> widestCh (fst (median_setWidestChannel tie_image [(0, 0), (1, 0)]
        \<lparr>px = \<lparr>off = 0, len = 2\<rparr>, widestCh = wr\<rparr>)) = wg
   \<and> widestCh (mean_setPriority tie_image [(0, 0), (1, 0)]
        (zero_cluster\<lparr>px := \<lparr>off = 0, len = 2\<rparr>\<rparr>) True) = wg"
  by (simp add: median_widestCh mean_widestCh tie_image_extents widest_def zero_cluster_def)

section \<open>Error diffusion\<close>

lemma dither211_pixel_Inr:
  assumes "dither211_pixel PI cp i0 y x st = Inr st'"
  shows "\<exists>pc. color_RGBA (cp ! nat (PI cp (afc211 (adjusted211 i0 y x st)))) = Inr pc \<and>
     in_range (dn st) (x - MinX (Bounds i0) + 1) \<and> in_range (dn st) (x - MinX (Bounds i0)) \<and>
     (\<forall>w. chan w (rt st') = (chan w (adjusted211 i0 y x st) - uint (chan w pc)) sdiv 2 \<and>
          chan w (dn st' ! nat (x - MinX (Bounds i0) + 1)) =
             ((chan w (adjusted211 i0 y x st) - uint (chan w pc)) - (chan w (adjusted211 i0 y x st) - uint (chan w pc)) sdiv 2) sdiv 2 \<and>
          chan w (dn st' ! nat (x - MinX (Bounds i0))) = chan w (dn st ! nat (x - MinX (Bounds i0))) +
             (((chan w (adjusted211 i0 y x st) - uint (chan w pc)) - (chan w (adjusted211 i0 y x st) - uint (chan w pc)) sdiv 2)
              - ((chan w (adjusted211 i0 y x st) - uint (chan w pc)) - (chan w (adjusted211 i0 y x st) - uint (chan w pc)) sdiv 2) sdiv 2))"
proof -
  obtain aR aG aB where a: "adjusted211 i0 y x st = (aR, aG, aB)" by (cases "adjusted211 i0 y x st")
  let ?i = "PI cp (afc211 (aR, aG, aB))"
  let ?dx = "x - MinX (Bounds i0)"
  from assms a have r: "in_range cp ?i"
    by (auto simp: dither211_pixel_def Let_def split: if_splits)
  from assms a r obtain pr pg pb where pc: "color_RGBA (cp ! nat ?i) = Inr (pr, pg, pb)"
    by (auto simp: dither211_pixel_def Let_def split: if_splits sum.splits)
  from assms a r pc have d: "in_range (dn st) (?dx + 1)" "in_range (dn st) ?dx"
    by (auto simp: dither211_pixel_def Let_def split: if_splits)
  obtain dR dG dB where dn: "dn st ! nat ?dx = (dR, dG, dB)" by (cases "dn st ! nat ?dx")
  from d have ne: "nat (?dx + 1) \<noteq> nat ?dx" "nat ?dx < length (dn st)" "nat (?dx + 1) < length (dn st)"
    by (auto simp: in_range_def)
  from assms a r pc d dn ne have st': "st' = \<lparr>rt = ((aR - uint pr) sdiv 2, (aG - uint pg) sdiv 2, (aB - uint pb) sdiv 2),
        dn = (dn st)[nat (?dx + 1) := (((aR - uint pr) - (aR - uint pr) sdiv 2) sdiv 2, ((aG - uint pg) - (aG - uint pg) sdiv 2) sdiv 2, ((aB - uint pb) - (aB - uint pb) sdiv 2) sdiv 2),
           nat ?dx := (dR + (((aR - uint pr) - (aR - uint pr) sdiv 2) - ((aR - uint pr) - (aR - uint pr) sdiv 2) sdiv 2),
                       dG + (((aG - uint pg) - (aG - uint pg) sdiv 2) - ((aG - uint pg) - (aG - uint pg) sdiv 2) sdiv 2),
                       dB + (((aB - uint pb) - (aB - uint pb) sdiv 2) - ((aB - uint pb) - (aB - uint pb) sdiv 2) sdiv 2))],
        pi = SetColorIndex (pi st) x y (word_of_int ?i)\<rparr>"
    by (simp add: dither211_pixel_def Let_def)
  have "\<And>w. chan w (rt st') = (chan w (aR, aG, aB) - uint (chan w (pr, pg, pb))) sdiv 2"
    subgoal for w by (cases w) (simp_all add: st') done
  moreover have "\<And>w. chan w (dn st' ! nat (?dx + 1)) =
      ((chan w (aR, aG, aB) - uint (chan w (pr, pg, pb))) - (chan w (aR, aG, aB) - uint (chan w (pr, pg, pb))) sdiv 2) sdiv 2"
    subgoal for w using ne by (cases w) (simp_all add: st') done
  moreover have "\<And>w. chan w (dn st' ! nat ?dx) = chan w (dn st ! nat ?dx) +
      (((chan w (aR, aG, aB) - uint (chan w (pr, pg, pb))) - (chan w (aR, aG, aB) - uint (chan w (pr, pg, pb))) sdiv 2)
       - ((chan w (aR, aG, aB) - uint (chan w (pr, pg, pb))) - (chan w (aR, aG, aB) - uint (chan w (pr, pg, pb))) sdiv 2) sdiv 2)"
    subgoal for w using ne by (cases w) (simp_all add: st' dn) done
  ultimately show ?thesis using pc d unfolding a by blast
qed


lemma Dither_pixel_Inr:
  assumes "Dither_pixel PI cp i0 y x st = Inr st'"
  shows "\<exists>pc. color_RGBA (cp ! nat (PI cp (case adjusted i0 y x st of (aR, aG, aB) \<Rightarrow> RGBA64 aR aG aB 0))) = Inr pc \<and>
     in_range (dn st) (x + 1) \<and> in_range (dn st) x \<and>
     (\<forall>w. chan w (rt st') = right_error (chan w (adjusted i0 y x st)) (chan w pc) \<and>
          chan w (dn st' ! nat (x + 1)) = right_error (chan w (adjusted i0 y x st)) (chan w pc) div 2 \<and>
          chan w (dn st' ! nat x) = chan w (dn st ! nat x) + right_error (chan w (adjusted i0 y x st)) (chan w pc) div 2)"
proof -
  obtain aR aG aB where a: "adjusted i0 y x st = (aR, aG, aB)" by (cases "adjusted i0 y x st")
  let ?i = "PI cp (RGBA64 aR aG aB 0)"
  from assms a have r: "in_range cp ?i"
    by (auto simp: Dither_pixel_def Let_def split: if_splits)
  from assms a r obtain pr pg pb where pc: "color_RGBA (cp ! nat ?i) = Inr (pr, pg, pb)"
    by (auto simp: Dither_pixel_def Let_def split: if_splits sum.splits)
  from assms a r pc have d: "in_range (dn st) (x + 1)" "in_range (dn st) x"
    by (auto simp: Dither_pixel_def Let_def split: if_splits)
  obtain dR dG dB where dn: "dn st ! nat x = (dR, dG, dB)" by (cases "dn st ! nat x")
  from d have ne: "nat (x + 1) \<noteq> nat x" "nat x < length (dn st)" "nat (x + 1) < length (dn st)"
    by (auto simp: in_range_def)
  from assms a r pc d dn ne have st': "st' = \<lparr>rt = (right_error aR pr, right_error aG pg, right_error aB pb),
        dn = (dn st)[nat (x + 1) := (right_error aR pr div 2, right_error aG pg div 2, right_error aB pb div 2),
           nat x := (dR + right_error aR pr div 2, dG + right_error aG pg div 2, dB + right_error aB pb div 2)],
        pi = SetColorIndex (pi st) x y (word_of_int ?i)\<rparr>"
    by (simp add: Dither_pixel_def Let_def)
  have "\<And>w. chan w (rt st') = right_error (chan w (aR, aG, aB)) (chan w (pr, pg, pb))"
    subgoal for w by (cases w) (simp_all add: st') done
  moreover have "\<And>w. chan w (dn st' ! nat (x + 1)) = right_error (chan w (aR, aG, aB)) (chan w (pr, pg, pb)) div 2"
    subgoal for w using ne by (cases w) (simp_all add: st') done
  moreover have "\<And>w. chan w (dn st' ! nat x) = chan w (dn st ! nat x) + right_error (chan w (aR, aG, aB)) (chan w (pr, pg, pb)) div 2"
    subgoal for w using ne by (cases w) (simp_all add: st' dn) done
  ultimately show ?thesis using pc d unfolding a by auto
qed

lemma dither211_pixel_example:
  "dither211_pixel first_index black_palette one_image 0 0 dither211_start
     = Inr (dither211_start\<lparr>dn := [(1, 0, 0), (0, 0, 0)]\<rparr>)"
  by (simp add: dither211_pixel_def adjusted211_def adjust211_def afc211_def first_index_def
      black_palette_def one_image_def in_range_def one_paletted_def SetColorIndex_def Let_def
      signed_divide_int_def dither211_start_def)

lemma Dither_pixel_example:
  "Dither_pixel first_index black_palette one_image 0 0 Dither_start = Inr Dither_start"
  by (simp add: Dither_pixel_def adjusted_def adjust_def right_error_def first_index_def
      black_palette_def one_image_def in_range_def one_paletted_def SetColorIndex_def Let_def
      Dither_start_def)

text \<open>
  Claim C4, as amended.  In \<open>dither211\<close>, for every processed pixel and every channel, the
  residual (adjusted colour after the limits, minus the chosen palette colour) is split
  exactly: the amount carried right, the amount assigned to the buffer cell \<open>dx + 1\<close> and
  the amount added to the buffer cell \<open>dx\<close> sum to the residual.  In \<open>Dither\<close> the amount
  carried right is \<open>right_error\<close> of the adjusted and the palette value (half of their
  difference, or 0 when the palette value is larger), and half of that amount, rounded
  down, is assigned to the buffer cell \<open>x + 1\<close> and added to the buffer cell \<open>x\<close>.
\<close>

theorem diffusion_per_pixel:
  "(dither211_pixel PI cp i0 y x st = Inr st' \<longrightarrow>
      (\<exists>pc. color_RGBA (cp ! nat (PI cp (afc211 (adjusted211 i0 y x st)))) = Inr pc \<and>
         (\<forall>w. chan w (rt st') + chan w (dn st' ! nat (x - MinX (Bounds i0) + 1))
                + (chan w (dn st' ! nat (x - MinX (Bounds i0))) - chan w (dn st ! nat (x - MinX (Bounds i0))))
              = chan w (adjusted211 i0 y x st) - uint (chan w pc))))
   \<and> (Dither_pixel PI cp i0 y x su = Inr su' \<longrightarrow>
      (\<exists>pc. color_RGBA (cp ! nat (PI cp (case adjusted i0 y x su of (aR, aG, aB) \<Rightarrow> RGBA64 aR aG aB 0))) = Inr pc \<and>
         (\<forall>w. chan w (rt su') = right_error (chan w (adjusted i0 y x su)) (chan w pc)
             \<and> chan w (dn su' ! nat (x + 1)) = right_error (chan w (adjusted i0 y x su)) (chan w pc) div 2
             \<and> chan w (dn su' ! nat x) - chan w (dn su ! nat x)
                 = right_error (chan w (adjusted i0 y x su)) (chan w pc) div 2)))"
proof (intro conjI impI)
  assume "dither211_pixel PI cp i0 y x st = Inr st'"
  from dither211_pixel_Inr [OF this] obtain pc where
    pc: "color_RGBA (cp ! nat (PI cp (afc211 (adjusted211 i0 y x st)))) = Inr pc" and
    w: "\<And>w. chan w (rt st') = (chan w (adjusted211 i0 y x st) - uint (chan w pc)) sdiv 2 \<and>
          chan w (dn st' ! nat (x - MinX (Bounds i0) + 1)) =
             ((chan w (adjusted211 i0 y x st) - uint (chan w pc)) - (chan w (adjusted211 i0 y x st) - uint (chan w pc)) sdiv 2) sdiv 2 \<and>
          chan w (dn st' ! nat (x - MinX (Bounds i0))) = chan w (dn st ! nat (x - MinX (Bounds i0))) +
             (((chan w (adjusted211 i0 y x st) - uint (chan w pc)) - (chan w (adjusted211 i0 y x st) - uint (chan w pc)) sdiv 2)
              - ((chan w (adjusted211 i0 y x st) - uint (chan w pc)) - (chan w (adjusted211 i0 y x st) - uint (chan w pc)) sdiv 2) sdiv 2)"
    by blast
  have "\<And>w. chan w (rt st') + chan w (dn st' ! nat (x - MinX (Bounds i0) + 1))
                + (chan w (dn st' ! nat (x - MinX (Bounds i0))) - chan w (dn st ! nat (x - MinX (Bounds i0))))
              = chan w (adjusted211 i0 y x st) - uint (chan w pc)"
    subgoal for w using w [of w] by simp done
  with pc show "\<exists>pc. color_RGBA (cp ! nat (PI cp (afc211 (adjusted211 i0 y x st)))) = Inr pc \<and>
         (\<forall>w. chan w (rt st') + chan w (dn st' ! nat (x - MinX (Bounds i0) + 1))
                + (chan w (dn st' ! nat (x - MinX (Bounds i0))) - chan w (dn st ! nat (x - MinX (Bounds i0))))
              = chan w (adjusted211 i0 y x st) - uint (chan w pc))" by blast
next
  assume "Dither_pixel PI cp i0 y x su = Inr su'"
  from Dither_pixel_Inr [OF this] obtain pc where
    pc: "color_RGBA (cp ! nat (PI cp (case adjusted i0 y x su of (aR, aG, aB) \<Rightarrow> RGBA64 aR aG aB 0))) = Inr pc" and
    w: "\<And>w. chan w (rt su') = right_error (chan w (adjusted i0 y x su)) (chan w pc) \<and>
          chan w (dn su' ! nat (x + 1)) = right_error (chan w (adjusted i0 y x su)) (chan w pc) div 2 \<and>
          chan w (dn su' ! nat x) = chan w (dn su ! nat x) + right_error (chan w (adjusted i0 y x su)) (chan w pc) div 2"
    by blast
  have "\<And>w. chan w (rt su') = right_error (chan w (adjusted i0 y x su)) (chan w pc)
             \<and> chan w (dn su' ! nat (x + 1)) = right_error (chan w (adjusted i0 y x su)) (chan w pc) div 2
             \<and> chan w (dn su' ! nat x) - chan w (dn su ! nat x)
                 = right_error (chan w (adjusted i0 y x su)) (chan w pc) div 2"
    subgoal for w using w [of w] by simp done
  with pc show "\<exists>pc. color_RGBA (cp ! nat (PI cp (case adjusted i0 y x su of (aR, aG, aB) \<Rightarrow> RGBA64 aR aG aB 0))) = Inr pc \<and>
         (\<forall>w. chan w (rt su') = right_error (chan w (adjusted i0 y x su)) (chan w pc)
             \<and> chan w (dn su' ! nat (x + 1)) = right_error (chan w (adjusted i0 y x su)) (chan w pc) div 2
             \<and> chan w (dn su' ! nat x) - chan w (dn su ! nat x)
                 = right_error (chan w (adjusted i0 y x su)) (chan w pc) div 2)" by blast
qed


theorem diffusion_per_pixel_witness:
  "dither211_pixel first_index black_palette one_image 0 0 dither211_start
     = Inr (dither211_start\<lparr>dn := [(1, 0, 0), (0, 0, 0)]\<rparr>)
   \<and> Dither_pixel first_index black_palette one_image 0 0 Dither_start = Inr Dither_start
   \<and> (\<exists>pc. color_RGBA (black_palette ! nat (first_index black_palette
                (afc211 (adjusted211 one_image 0 0 dither211_start)))) = Inr pc \<and>
         (\<forall>w. chan w (rt (dither211_start\<lparr>dn := [(1, 0, 0), (0, 0, 0)]\<rparr>))
                + chan w (dn (dither211_start\<lparr>dn := [(1, 0, 0), (0, 0, 0)]\<rparr>)
                           ! nat (0 - MinX (Bounds one_image) + 1))
                + (chan w (dn (dither211_start\<lparr>dn := [(1, 0, 0), (0, 0, 0)]\<rparr>)
                            ! nat (0 - MinX (Bounds one_image)))
                   - chan w (dn dither211_start ! nat (0 - MinX (Bounds one_image))))
              = chan w (adjusted211 one_image 0 0 dither211_start) - uint (chan w pc)))"
  using diffusion_per_pixel [of first_index black_palette one_image 0 0 dither211_start
          "dither211_start\<lparr>dn := [(1, 0, 0), (0, 0, 0)]\<rparr>" Dither_start Dither_start]
        dither211_pixel_example Dither_pixel_example
  by simp

text \<open>
  Claim C4 as stated fails for \<open>Dither\<close>: on the one-pixel image the adjusted red value
  is 1, the palette colour is black, so the residual is 1, and the pixel leaves the carry
  and both buffer cells at 0: the three amounts sum to 0.
\<close>

theorem diffusion_counterexample:
  "Dither_pixel first_index black_palette one_image 0 0 Dither_start = Inr Dither_start
   \<and> color_RGBA (black_palette ! nat (first_index black_palette (RGBA64 1 0 0 0))) = Inr (0, 0, 0)
   \<and> adjusted one_image 0 0 Dither_start = (1, 0, 0)
   \<and> uint (chan wr (rt Dither_start)) + uint (chan wr (dn Dither_start ! 1))
        + (uint (chan wr (dn Dither_start ! 0)) - uint (chan wr (dn Dither_start ! 0)))
      \<noteq> uint (chan wr (adjusted one_image 0 0 Dither_start)) - uint (0 :: u32)"
  by (simp add: Dither_pixel_example)
     (simp add: adjusted_def adjust_def first_index_def black_palette_def one_image_def
        Dither_start_def)

section \<open>Nearest-colour queries\<close>

lemma index_loop_range:
  "index_loop p c j i mn = i \<or> (j \<le> index_loop p c j i mn \<and> index_loop p c j i mn < j + int (length p))"
proof (induction p arbitrary: j i mn)
  case Nil
  then show ?case by simp
next
  case (Cons pc p)
  show ?case
  proof (cases "word_sless (sq_dist c pc) mn")
    case True
    with Cons.IH [of "j + 1" j "sq_dist c pc"] show ?thesis by auto
  next
    case False
    with Cons.IH [of "j + 1" i mn] show ?thesis by auto
  qed
qed

lemma sPalette_index_range: "p \<noteq> [] \<Longrightarrow> 0 \<le> sPalette_index p c \<and> sPalette_index p c < int (length p)"
  using index_loop_range [of p c 0 0 "0x7FFFFFFFFFFFFFFF"] by (cases p) (auto simp: sPalette_index_def)

lemma search_s_leaf: "wf_tree t \<Longrightarrow> \<exists>l \<in> set (leaves t). search_s c lt t = Inr l"
proof (induction t arbitrary: lt)
  case TNil
  then show ?case by simp
next
  case (TNode ty ix col sp lo hi)
  show ?case
  proof (cases "ty = TLeaf")
    case True
    then show ?thesis by simp
  next
    case False
    with TNode.prems have wf: "wf_tree lo" "wf_tree hi" by auto
    obtain lt' where lt': "lt' = (case c of (r, g, b) \<Rightarrow>
                     if ty = TSplitR then r < sp
                     else if ty = TSplitG then g < sp
                     else if ty = TSplitB then b < sp
                     else lt)" by simp
    from TNode.IH(1) [OF wf(1), of lt'] TNode.IH(2) [OF wf(2), of lt'] False lt'
    show ?thesis by (cases lt') (auto simp: Let_def)
  qed
qed

lemma IndexNear_leaf:
  assumes "wf_tree t" shows "\<exists>l \<in> set (leaves t). TreePalette_IndexNear t c = Inr (Index l)"
proof -
  from search_s_leaf [OF assms, of c False] obtain l where "l \<in> set (leaves t)" "search t c = Inr l"
    by (auto simp: search_def)
  moreover from assms have "t \<noteq> TNil" by auto
  ultimately show ?thesis by (auto simp: TreePalette_IndexNear_def)
qed

text \<open>
  Claim C6, as amended.  On a non-empty palette \<open>sPalette.index\<close> returns an index \<open>i\<close>
  with \<open>0 \<le> i < len(p)\<close>, for every colour.  On a tree that is not nil and whose inner
  nodes all have two subtrees, \<open>TreePalette.IndexNear\<close> returns the field \<open>Index\<close> of one
  of the leaves of the tree, for every colour; that is a valid palette index when the
  leaves hold valid palette indices.
\<close>

theorem nearest_index_valid:
  "(p \<noteq> [] \<longrightarrow> 0 \<le> sPalette_index p c \<and> sPalette_index p c < int (length p))
   \<and> (wf_tree t \<longrightarrow> (\<exists>l \<in> set (leaves t). TreePalette_IndexNear t q = Inr (Index l)))
   \<and> (wf_tree t \<and> (\<forall>l \<in> set (leaves t). 0 \<le> Index l \<and> Index l < n) \<longrightarrow>
        (\<exists>i. TreePalette_IndexNear t q = Inr i \<and> 0 \<le> i \<and> i < n))"
  using sPalette_index_range [of p c] IndexNear_leaf [of t q] by blast

theorem nearest_index_valid_witness:
  "two_palette \<noteq> [] \<and> wf_tree two_tree \<and> map Index (leaves two_tree) = [0, 1]
   \<and> 0 \<le> sPalette_index two_palette (70000, 0, 0)
   \<and> sPalette_index two_palette (70000, 0, 0) < int (length two_palette)
   \<and> TreePalette_IndexNear two_tree (70000, 0, 0) = Inr 1"
proof -
  have h: "two_palette \<noteq> []" "wf_tree two_tree"
    "\<forall>l \<in> set (leaves two_tree). 0 \<le> Index l \<and> Index l < 2"
    by (simp_all add: two_palette_def two_tree_def TLeaf_def)
  have "map Index (leaves two_tree) = [0, 1]"
    "TreePalette_IndexNear two_tree (70000, 0, 0) = Inr 1"
    by (simp_all add: two_tree_def TLeaf_def TSplitR_def TreePalette_IndexNear_def search_def)
  with h nearest_index_valid [of two_palette "(70000, 0, 0)" two_tree "(70000, 0, 0)" 2]
  show ?thesis by blast
qed

text \<open>
  Claim C6 as stated fails: on the empty palette \<open>sPalette.index\<close> returns 0, which is
  not below the palette size 0, and on the nil tree \<open>TreePalette.IndexNear\<close> returns -1.
\<close>

theorem nearest_index_valid_counterexample:
  "sPalette_index [] (0, 0, 0) = 0
   \<and> \<not> sPalette_index [] (0, 0, 0) < int (length ([] :: sRGB list))
   \<and> TreePalette_IndexNear TNil (0, 0, 0) = Inr (- 1)"
  by (simp add: sPalette_index_def TreePalette_IndexNear_def)

section \<open>The linear scan and the tree descent\<close>

lemma neg_pow_le: "0 \<le> (k::int) \<Longrightarrow> - (2 ^ n) \<le> k"
  by (rule order_trans [of _ 0]) simp_all

lemma sint_small:
  assumes "(a :: 32 word) \<le> 0xffff" shows "0 \<le> sint a \<and> sint a \<le> 0xffff"
proof -
  from assms have u: "uint a \<le> 0xffff" by (simp add: word_le_def)
  have "sint a = signed_take_bit 31 (uint a)" by (simp add: sint_uint)
  also have "\<dots> = uint a"
  proof (rule signed_take_bit_int_eq_self)
    show "- (2 ^ 31) \<le> uint a" by (rule neg_pow_le) simp
    show "uint a < 2 ^ 31" using u by simp
  qed
  finally show ?thesis using u by simp
qed

lemma diff_small:
  assumes "(a :: 32 word) \<le> 0xffff" "(b :: 32 word) \<le> 0xffff"
  shows "sint (scast (a - b) :: 64 word) = sint a - sint b"
proof -
  have "sint (scast (a - b) :: 64 word) = sint (a - b)"
    by (rule sint_up_scast) (simp add: is_up)
  also have "\<dots> = signed_take_bit 31 (sint a - sint b)" by (simp add: sint_word_diff)
  also have "\<dots> = sint a - sint b"
    using sint_small [OF assms(1)] sint_small [OF assms(2)]
    by (intro signed_take_bit_int_eq_self) auto
  finally show ?thesis .
qed

lemma sq_bound: "- 0xffff \<le> (d::int) \<Longrightarrow> d \<le> 0xffff \<Longrightarrow> 0 \<le> d * d \<and> d * d \<le> 0xffff * 0xffff"
proof -
  assume a: "- 0xffff \<le> d" "d \<le> 0xffff"
  then have "\<bar>d\<bar> \<le> 0xffff" by simp
  then have "\<bar>d\<bar> * \<bar>d\<bar> \<le> 0xffff * 0xffff" by (intro mult_mono) auto
  then show ?thesis by (simp add: abs_mult_self_eq)
qed

lemma sq_small:
  assumes "- 0xffff \<le> sint (d :: 64 word)" "sint d \<le> 0xffff"
  shows "sint (d * d) = sint d * sint d"
proof -
  have "sint (d * d) = signed_take_bit 63 (sint d * sint d)" by (simp add: sint_word_mult)
  also have "\<dots> = sint d * sint d"
  proof (rule signed_take_bit_int_eq_self)
    from sq_bound [OF assms] show "- (2 ^ 63) \<le> sint d * sint d" by (intro neg_pow_le) simp
    from sq_bound [OF assms] show "sint d * sint d < 2 ^ 63" by simp
  qed
  finally show ?thesis .
qed

lemma add_small:
  assumes "0 \<le> sint (a :: 64 word)" "sint a \<le> 0x200000000" "0 \<le> sint (b :: 64 word)" "sint b \<le> 0x100000000"
  shows "sint (a + b) = sint a + sint b"
proof -
  have "sint (a + b) = signed_take_bit 63 (sint a + sint b)" by (simp add: sint_word_add)
  also have "\<dots> = sint a + sint b"
  proof (rule signed_take_bit_int_eq_self)
    from assms show "- (2 ^ 63) \<le> sint a + sint b" by (intro neg_pow_le) simp
    from assms show "sint a + sint b < 2 ^ 63" by simp
  qed
  finally show ?thesis .
qed

lemma sint_sq_dist:
  assumes "in_gamut c" "in_gamut pc"
  shows "sint (sq_dist c pc) = sq_euclid c pc \<and> 0 \<le> sq_euclid c pc \<and> sq_euclid c pc \<le> 3 * (0xffff * 0xffff)"
proof -
  obtain cr cg cb pr pg pb where c: "c = (cr, cg, cb)" "pc = (pr, pg, pb)"
    by (cases c, cases pc) auto
  from assms c have r: "cr \<le> 0xffff" "cg \<le> 0xffff" "cb \<le> 0xffff" "pr \<le> 0xffff" "pg \<le> 0xffff" "pb \<le> 0xffff"
    by (auto simp: in_gamut_def)
  define dr dg db :: "64 word" where "dr = scast (cr - pr)" and "dg = scast (cg - pg)" and "db = scast (cb - pb)"
  have d: "sint dr = sint cr - sint pr" "sint dg = sint cg - sint pg" "sint db = sint cb - sint pb"
    unfolding dr_def dg_def db_def using r by (simp_all add: diff_small)
  have b: "- 0xffff \<le> sint dr \<and> sint dr \<le> 0xffff" "- 0xffff \<le> sint dg \<and> sint dg \<le> 0xffff"
       "- 0xffff \<le> sint db \<and> sint db \<le> 0xffff"
    unfolding d using sint_small [OF r(1)] sint_small [OF r(2)] sint_small [OF r(3)]
       sint_small [OF r(4)] sint_small [OF r(5)] sint_small [OF r(6)] by auto
  have s: "sint (dr * dr) = sint dr * sint dr" "sint (dg * dg) = sint dg * sint dg" "sint (db * db) = sint db * sint db"
    using b by (simp_all add: sq_small)
  have sb: "0 \<le> sint dr * sint dr \<and> sint dr * sint dr \<le> 0xffff * 0xffff"
       "0 \<le> sint dg * sint dg \<and> sint dg * sint dg \<le> 0xffff * 0xffff"
       "0 \<le> sint db * sint db \<and> sint db * sint db \<le> 0xffff * 0xffff"
    using b sq_bound by blast+
  have s2: "sint (dr * dr + dg * dg) = sint dr * sint dr + sint dg * sint dg"
    using sb s by (subst add_small) auto
  have s3: "sint (dr * dr + dg * dg + db * db) = sint dr * sint dr + sint dg * sint dg + sint db * sint db"
    using sb s s2 by (subst add_small) auto
  have "sq_dist c pc = dr * dr + dg * dg + db * db"
    by (simp add: c dr_def dg_def db_def Let_def)
  moreover have "sq_euclid c pc = sint dr * sint dr + sint dg * sint dg + sint db * sint db"
    by (simp add: c sq_euclid_def d power2_eq_square)
  ultimately show ?thesis using s3 sb by auto
qed


lemma index_loop_min:
  "(index_loop p c j i mn = i \<and> (\<forall>q \<in> set p. \<not> sint (sq_dist c q) < sint mn))
   \<or> (\<exists>k < length p. index_loop p c j i mn = j + int k \<and> sint (sq_dist c (p ! k)) < sint mn
          \<and> (\<forall>q \<in> set p. sint (sq_dist c (p ! k)) \<le> sint (sq_dist c q)))"
proof (induction p arbitrary: j i mn)
  case Nil
  then show ?case by simp
next
  case (Cons pc p)
  show ?case
  proof (cases "sint (sq_dist c pc) < sint mn")
    case True
    then have step: "index_loop (pc # p) c j i mn = index_loop p c (j + 1) j (sq_dist c pc)"
      by (simp add: word_sless_alt)
    from Cons.IH [of "j + 1" j "sq_dist c pc"] show ?thesis
    proof
      assume a: "index_loop p c (j + 1) j (sq_dist c pc) = j \<and>
                 (\<forall>q \<in> set p. \<not> sint (sq_dist c q) < sint (sq_dist c pc))"
      have "0 < length (pc # p) \<and> index_loop (pc # p) c j i mn = j + int 0
            \<and> sint (sq_dist c ((pc # p) ! 0)) < sint mn
            \<and> (\<forall>q \<in> set (pc # p). sint (sq_dist c ((pc # p) ! 0)) \<le> sint (sq_dist c q))"
        using a True step by auto
      then show ?thesis by blast
    next
      assume "\<exists>k < length p. index_loop p c (j + 1) j (sq_dist c pc) = j + 1 + int k
                \<and> sint (sq_dist c (p ! k)) < sint (sq_dist c pc)
                \<and> (\<forall>q \<in> set p. sint (sq_dist c (p ! k)) \<le> sint (sq_dist c q))"
      then obtain k where k: "k < length p"
          "index_loop p c (j + 1) j (sq_dist c pc) = j + 1 + int k"
          "sint (sq_dist c (p ! k)) < sint (sq_dist c pc)"
          "\<forall>q \<in> set p. sint (sq_dist c (p ! k)) \<le> sint (sq_dist c q)" by blast
      have "Suc k < length (pc # p) \<and> index_loop (pc # p) c j i mn = j + int (Suc k)
            \<and> sint (sq_dist c ((pc # p) ! Suc k)) < sint mn
            \<and> (\<forall>q \<in> set (pc # p). sint (sq_dist c ((pc # p) ! Suc k)) \<le> sint (sq_dist c q))"
        using k True step by auto
      then show ?thesis by blast
    qed
  next
    case False
    then have step: "index_loop (pc # p) c j i mn = index_loop p c (j + 1) i mn"
      by (simp add: word_sless_alt)
    from Cons.IH [of "j + 1" i mn] show ?thesis
    proof
      assume "index_loop p c (j + 1) i mn = i \<and> (\<forall>q \<in> set p. \<not> sint (sq_dist c q) < sint mn)"
      then show ?thesis using False step by auto
    next
      assume "\<exists>k < length p. index_loop p c (j + 1) i mn = j + 1 + int k
                \<and> sint (sq_dist c (p ! k)) < sint mn
                \<and> (\<forall>q \<in> set p. sint (sq_dist c (p ! k)) \<le> sint (sq_dist c q))"
      then obtain k where k: "k < length p"
          "index_loop p c (j + 1) i mn = j + 1 + int k"
          "sint (sq_dist c (p ! k)) < sint mn"
          "\<forall>q \<in> set p. sint (sq_dist c (p ! k)) \<le> sint (sq_dist c q)" by blast
      have "Suc k < length (pc # p) \<and> index_loop (pc # p) c j i mn = j + int (Suc k)
            \<and> sint (sq_dist c ((pc # p) ! Suc k)) < sint mn
            \<and> (\<forall>q \<in> set (pc # p). sint (sq_dist c ((pc # p) ! Suc k)) \<le> sint (sq_dist c q))"
        using k False step by auto
      then show ?thesis by blast
    qed
  qed
qed

lemma sPalette_index_nearest:
  assumes g: "in_gamut c" "\<forall>q \<in> set p. in_gamut q"
    and j: "j < length p"
    and u: "\<forall>k < length p. k \<noteq> j \<longrightarrow> sq_euclid c (p ! j) < sq_euclid c (p ! k)"
  shows "sPalette_index p c = int j"
proof -
  have d: "\<And>q. q \<in> set p \<Longrightarrow> sint (sq_dist c q) = sq_euclid c q \<and> sq_euclid c q \<le> 3 * (0xffff * 0xffff)"
    using sint_sq_dist [OF g(1)] g(2) by blast
  have mx: "sint (0x7FFFFFFFFFFFFFFF :: 64 word) = 0x7FFFFFFFFFFFFFFF" by simp
  from j have pj: "p ! j \<in> set p" by simp
  from index_loop_min [of p c 0 0 "0x7FFFFFFFFFFFFFFF"] show ?thesis
  proof
    assume "index_loop p c 0 0 0x7FFFFFFFFFFFFFFF = 0 \<and>
            (\<forall>q \<in> set p. \<not> sint (sq_dist c q) < sint (0x7FFFFFFFFFFFFFFF :: 64 word))"
    then have "\<not> sint (sq_dist c (p ! j)) < 0x7FFFFFFFFFFFFFFF" using pj mx by metis
    with d [OF pj] show ?thesis by simp
  next
    assume "\<exists>k < length p. index_loop p c 0 0 0x7FFFFFFFFFFFFFFF = 0 + int k
              \<and> sint (sq_dist c (p ! k)) < sint (0x7FFFFFFFFFFFFFFF :: 64 word)
              \<and> (\<forall>q \<in> set p. sint (sq_dist c (p ! k)) \<le> sint (sq_dist c q))"
    then obtain k where k: "k < length p" "index_loop p c 0 0 0x7FFFFFFFFFFFFFFF = int k"
        "\<forall>q \<in> set p. sint (sq_dist c (p ! k)) \<le> sint (sq_dist c q)" by auto
    from k(1) have pk: "p ! k \<in> set p" by simp
    from k(3) pj have "sint (sq_dist c (p ! k)) \<le> sint (sq_dist c (p ! j))" by blast
    with d [OF pk] d [OF pj] have "sq_euclid c (p ! k) \<le> sq_euclid c (p ! j)" by simp
    with u k(1) have "k = j" by force
    with k(2) show ?thesis by (simp add: sPalette_index_def)
  qed
qed


lemma IndexNear_search:
  assumes "search t c = Inr l" shows "TreePalette_IndexNear t c = Inr (Index l)"
proof -
  from assms have "t \<noteq> TNil" by (auto simp: search_def)
  with assms show ?thesis by (simp add: TreePalette_IndexNear_def)
qed

text \<open>
  Claim C5, as amended.  For every palette and every query colour, both with channels in
  the range of \<open>color.RGBA64\<close>, for which a unique nearest palette entry \<open>j\<close> exists under
  the squared Euclidean distance, the linear scan \<open>sPalette.index\<close> returns \<open>j\<close>.  The tree
  descent returns the index held by the leaf it reaches, so it returns the same index as
  the linear scan exactly when that leaf holds \<open>j\<close>.
\<close>

theorem linear_scan_nearest:
  "in_gamut c \<and> (\<forall>q \<in> set p. in_gamut q) \<and> j < length p
     \<and> (\<forall>k < length p. k \<noteq> j \<longrightarrow> sq_euclid c (p ! j) < sq_euclid c (p ! k))
   \<longrightarrow> sPalette_index p c = int j
       \<and> (\<forall>l. search t c = Inr l \<longrightarrow>
             (TreePalette_IndexNear t c = Inr (sPalette_index p c)) = (Index l = int j))"
proof (intro impI conjI allI)
  assume h: "in_gamut c \<and> (\<forall>q \<in> set p. in_gamut q) \<and> j < length p
     \<and> (\<forall>k < length p. k \<noteq> j \<longrightarrow> sq_euclid c (p ! j) < sq_euclid c (p ! k))"
  then show i: "sPalette_index p c = int j"
    using sPalette_index_nearest [of c p j] by blast
  fix l assume "search t c = Inr l"
  from IndexNear_search [OF this] i
  show "(TreePalette_IndexNear t c = Inr (sPalette_index p c)) = (Index l = int j)" by simp
qed

theorem linear_scan_nearest_witness:
  "in_gamut (10, 0, 0) \<and> in_gamut (two_palette ! 0) \<and> in_gamut (two_palette ! 1)
   \<and> length two_palette = 2
   \<and> sq_euclid (10, 0, 0) (two_palette ! 0) < sq_euclid (10, 0, 0) (two_palette ! 1)
   \<and> sPalette_index two_palette (10, 0, 0) = 0
   \<and> search two_tree (10, 0, 0) = Inr (TNode 0 0 (0, 0, 0, 0xffff) 0 TNil TNil)
   \<and> TreePalette_IndexNear two_tree (10, 0, 0) = Inr (sPalette_index two_palette (10, 0, 0))"
proof -
  have h: "in_gamut (10, 0, 0) \<and> (\<forall>q \<in> set two_palette. in_gamut q)
     \<and> (0::nat) < length two_palette
     \<and> (\<forall>k < length two_palette. k \<noteq> 0 \<longrightarrow>
           sq_euclid (10, 0, 0) (two_palette ! 0) < sq_euclid (10, 0, 0) (two_palette ! k))"
    by (simp add: in_gamut_def two_palette_def sq_euclid_def less_Suc_eq)
  have s: "search two_tree (10, 0, 0) = Inr (TNode 0 0 (0, 0, 0, 0xffff) 0 TNil TNil)"
    by (simp add: two_tree_def search_def TLeaf_def TSplitR_def)
  from linear_scan_nearest [of "(10, 0, 0)" two_palette 0 two_tree] h s
  have "sPalette_index two_palette (10, 0, 0) = 0
    \<and> TreePalette_IndexNear two_tree (10, 0, 0) = Inr (sPalette_index two_palette (10, 0, 0))"
    by simp
  moreover have "in_gamut (10, 0, 0) \<and> in_gamut (two_palette ! 0) \<and> in_gamut (two_palette ! 1)
     \<and> length two_palette = 2
     \<and> sq_euclid (10, 0, 0) (two_palette ! 0) < sq_euclid (10, 0, 0) (two_palette ! 1)"
    by (simp add: in_gamut_def two_palette_def sq_euclid_def)
  ultimately show ?thesis using s by simp
qed

text \<open>
  Claim C5 as stated fails.  The leaves of \<open>two_tree\<close> correspond one-to-one to the
  entries of \<open>two_palette\<close>, the colour \<open>(999, 0, 0)\<close> is strictly nearer to entry 1 than to
  entry 0, the linear scan returns 1, and the tree descent returns 0, since
  \<open>999 < 1000\<close> sends it to the low leaf.
\<close>

theorem linear_scan_nearest_counterexample:
  "two_palette \<noteq> [] \<and> tree_matches two_tree two_palette \<and> wf_tree two_tree
   \<and> sq_euclid (999, 0, 0) (two_palette ! 1) < sq_euclid (999, 0, 0) (two_palette ! 0)
   \<and> sPalette_index two_palette (999, 0, 0) = 1
   \<and> TreePalette_IndexNear two_tree (999, 0, 0) = Inr 0"
  by (simp add: sPalette_index_def two_palette_def word_sless_alt sq_euclid_def
        TreePalette_IndexNear_def two_tree_def search_def TLeaf_def TSplitR_def
        tree_matches_def leaf_entry_def upt_rec)

section \<open>Requested colour counts below one\<close>

lemma median_Quantize_negative: "n < 0 \<Longrightarrow> median_Quantize im n = Inl MakeSliceLenOutOfRange"
  by (simp add: median_Quantize_def median_newQuantizer_def Let_def)

lemma median_Quantize_zero:
  "0 \<le> Dx (Bounds im) * Dy (Bounds im) \<Longrightarrow> median_Quantize im 0 = Inl IndexOutOfRange"
  by (simp add: median_Quantize_def median_newQuantizer_def Let_def Dx_def Dy_def)

lemma mean_Image_below_one:
  "n < 1 \<Longrightarrow> 0 \<le> Dx (Bounds im) \<Longrightarrow> 0 \<le> Dy (Bounds im) \<Longrightarrow>
   mean_Image im n = Inr \<lparr>Pix = replicate (nat (Dx (Bounds im) * Dy (Bounds im))) 0,
       Stride = Dx (Bounds im), Rect = Bounds im, Palette = []\<rparr>"
  by (simp add: mean_Image_def mean_newQuantizer_def Let_def mean_paletted_def paletted_of_def NewPaletted_def)

text \<open>
  Claim C9, as amended.  The median-cut quantizer requires a requested colour count of at
  least 1.  With \<open>n < 0\<close>, \<open>Quantize\<close> panics in \<open>make\<close> (a length out of range) and never
  reaches the cluster slice.  On an image with well-formed bounds in the range of \<open>int32\<close>
  and at most \<open>2\<^sup>3\<^sup>1\<close> pixels, so that no product of \<open>int\<close> wraps and every \<open>make\<close> of
  \<open>newQuantizer\<close> and \<open>image.NewPaletted\<close> is given a length it accepts, \<open>Quantize\<close> with
  \<open>n = 0\<close> panics with an index out of range on the empty cluster slice, and \<open>Image\<close> of
  the mean variant, which guards \<open>n < 1\<close>, returns an image with an empty palette.
\<close>

theorem count_below_one:
  "(n < 0 \<longrightarrow> median_Quantize im n = Inl MakeSliceLenOutOfRange)
   \<and> (fits_int32 (Bounds im) \<and> Dx (Bounds im) * Dy (Bounds im) \<le> 2 ^ 31 \<longrightarrow>
        median_Quantize im 0 = Inl IndexOutOfRange)
   \<and> (n < 1 \<and> fits_int32 (Bounds im) \<and> Dx (Bounds im) * Dy (Bounds im) \<le> 2 ^ 31 \<longrightarrow>
        mean_Image im n = Inr \<lparr>Pix = replicate (nat (Dx (Bounds im) * Dy (Bounds im))) 0,
                               Stride = Dx (Bounds im), Rect = Bounds im, Palette = []\<rparr>)"
proof -
  have "0 \<le> Dx (Bounds im) \<and> 0 \<le> Dy (Bounds im)" if "fits_int32 (Bounds im)"
    using that by (simp add: fits_int32_def Dx_def Dy_def)
  with median_Quantize_negative [of n im] median_Quantize_zero [of im]
    mean_Image_below_one [of n im]
  show ?thesis by simp
qed

theorem count_below_one_witness:
  "(- 1 :: int) < 0 \<and> fits_int32 (Bounds one_image)
   \<and> Dx (Bounds one_image) * Dy (Bounds one_image) \<le> 2 ^ 31
   \<and> median_Quantize one_image (- 1) = Inl MakeSliceLenOutOfRange
   \<and> median_Quantize one_image 0 = Inl IndexOutOfRange
   \<and> mean_Image one_image (- 1)
       = Inr \<lparr>Pix = [0], Stride = 1, Rect = \<lparr>MinX = 0, MinY = 0, MaxX = 1, MaxY = 1\<rparr>,
              Palette = []\<rparr>"
proof -
  have h: "fits_int32 (Bounds one_image)"
    "Dx (Bounds one_image) = 1" "Dy (Bounds one_image) = 1"
    "Bounds one_image = \<lparr>MinX = 0, MinY = 0, MaxX = 1, MaxY = 1\<rparr>"
    by (simp_all add: one_image_def Dx_def Dy_def fits_int32_def)
  from count_below_one [of "- 1" one_image] h show ?thesis by simp
qed

text \<open>
  Claim C9 as stated fails for a negative count: the panic is the one of \<open>make\<close> with a
  negative length, before any cluster slice exists, not an index out of range.
\<close>

theorem count_below_one_counterexample:
  "median_Quantize one_image (- 1) = Inl MakeSliceLenOutOfRange
   \<and> median_Quantize one_image (- 1) \<noteq> Inl IndexOutOfRange"
  by (simp add: median_Quantize_negative)

section \<open>Images with empty bounds\<close>

lemma scan_points_empty:
  "Dx b = 0 \<or> Dy b = 0 \<Longrightarrow> scan_points b = []"
  by (auto simp: scan_points_def Dx_def Dy_def)

lemma widest_extents0: "widest extents0 = (wg, 0xFFFFFFFF, 0)"
  by (simp add: widest_def extents0_def)

lemma slice_elems_empty: "slice_elems arr \<lparr>off = k, len = 0\<rparr> = []"
  by (simp add: slice_elems_def slice_idxs_def)

lemma take1_replicate: "0 < n \<Longrightarrow> take (Suc 0) ((replicate n z)[0 := y]) = [y]"
  by (cases n) simp_all

lemma median_Quantize_empty:
  assumes "Dx (Bounds im) = 0 \<or> Dy (Bounds im) = 0" "0 \<le> Dx (Bounds im)" "0 \<le> Dy (Bounds im)" "1 \<le> n"
  shows "median_Quantize im n = Inl IntegerDivideByZero"
proof -
  from assms have npx: "(MaxX (Bounds im) - MinX (Bounds im)) * (MaxY (Bounds im) - MinY (Bounds im)) = 0"
    by (auto simp: Dx_def Dy_def)
  have nq: "median_newQuantizer im n = Inr \<lparr>img = im, pxs = [],
      cs = (replicate (nat n) \<lparr>px = \<lparr>off = 0, len = 0\<rparr>, widestCh = wr\<rparr>)
                          [0 := \<lparr>px = \<lparr>off = 0, len = 0\<rparr>, widestCh = wr\<rparr>], splits = 0\<rparr>"
    using assms(4) by (simp add: median_newQuantizer_def Let_def make_px_def npx
        scan_points_empty [OF assms(1)])
  have n0: "0 < nat n" using assms by simp
  have cl: "median_cluster \<lparr>img = im, pxs = [],
      cs = (replicate (nat n) \<lparr>px = \<lparr>off = 0, len = 0\<rparr>, widestCh = wr\<rparr>)
                          [0 := \<lparr>px = \<lparr>off = 0, len = 0\<rparr>, widestCh = wr\<rparr>], splits = 0\<rparr>
     = Inr \<lparr>img = im, pxs = [], cs = [\<lparr>px = \<lparr>off = 0, len = 0\<rparr>, widestCh = wg\<rparr>], splits = 0\<rparr>"
    using n0 by (simp add: median_cluster_def median_cluster_loop.simps median_cluster_body_def median_setWidestChannel_def
        slice_elems_empty find_extents_def widest_extents0 take1_replicate)
  show ?thesis using assms
    by (simp add: median_Quantize_def nq cl median_paletted_def paletted_of_def NewPaletted_def
        slice_elems_empty average_color_def)
qed

lemma select_cluster_none:
  "\<not> cmax (cl ! 0) > cmin (cl ! 0) \<Longrightarrow> select_cluster cl 0 = - 1"
  by (simp add: select_cluster_def)

lemma mean_Image_empty:
  assumes "Dx (Bounds im) = 0 \<or> Dy (Bounds im) = 0" "0 \<le> Dx (Bounds im)" "0 \<le> Dy (Bounds im)" "1 \<le> n"
  shows "mean_Image im n = Inl IntegerDivideByZero"
proof -
  define m where "m = (if n > 256 then 256 else n)"
  from assms have npx: "(MaxX (Bounds im) - MinX (Bounds im)) * (MaxY (Bounds im) - MinY (Bounds im)) = 0"
    by (auto simp: Dx_def Dy_def)
  have m1: "1 \<le> m" "0 < nat m" using assms by (auto simp: m_def)
  define cs0 where "cs0 = (replicate (nat m) zero_cluster)[0 := zero_cluster\<lparr>px := \<lparr>off = 0, len = 0\<rparr>\<rparr>]"
  have nq: "mean_newQuantizer im m = Inr \<lparr>img = im, pxs = [], cs = cs0, splits = 0\<rparr>"
    using m1 by (simp add: mean_newQuantizer_def Let_def make_px_def npx
        scan_points_empty [OF assms(1)] cs0_def)
  have cs00: "cs0 ! 0 = zero_cluster" "cs0 \<noteq> []" "length cs0 = nat m"
    using m1 by (auto simp: cs0_def zero_cluster_def)
  have sp: "mean_setPriority im [] zero_cluster e =
      zero_cluster\<lparr>widestCh := wg, cmin := 0xFFFFFFFF, cmax := 0, volume := 1,
         priority := (if e then 0 else late_priority 0 1)\<rparr>" for e
    by (simp add: mean_setPriority_def zero_cluster_def slice_elems_empty find_extents_def
        widest_extents0 Let_def) (simp add: extents0_def)
  have cl: "mean_cluster_loop \<lparr>img = im, pxs = [], cs = cs0, splits = 0\<rparr> 0
     = Inr \<lparr>img = im, pxs = [], cs = [mean_setPriority im [] zero_cluster (0 < length cs0 div 2)], splits = 0\<rparr>"
    using cs00 m1
    by (subst mean_cluster_loop.simps) (simp add: mean_cluster_body_def Let_def select_cluster_none sp take1_replicate cs0_def)
  have pal: "mean_paletted \<lparr>img = im, pxs = [], cs = [c], splits = 0\<rparr> = Inl IntegerDivideByZero" if "len (px c) = 0" for c
    using assms that
    by (simp add: mean_paletted_def paletted_of_def NewPaletted_def slice_elems_def slice_idxs_def average_color_def)
  have pal0: "mean_paletted \<lparr>img = im, pxs = [], cs = cs0, splits = 0\<rparr> = Inl IntegerDivideByZero" if "m = 1"
    using that pal [of "zero_cluster"] by (simp add: cs0_def zero_cluster_def)
  have eq: "mean_Image im n =
      (case (if m > 1 then mean_cluster \<lparr>img = im, pxs = [], cs = cs0, splits = 0\<rparr>
             else Inr \<lparr>img = im, pxs = [], cs = cs0, splits = 0\<rparr>) of
         Inl e \<Rightarrow> Inl e | Inr q \<Rightarrow> mean_paletted q)"
    unfolding mean_Image_def Let_def m_def [symmetric] nq by simp
  show ?thesis
  proof (cases "m > 1")
    case True
    have "len (px (mean_setPriority im [] zero_cluster (0 < length cs0 div 2))) = 0"
      by (simp add: sp) (simp add: zero_cluster_def)
    from pal [OF this] True cs00 show ?thesis
      by (simp add: eq mean_cluster_def cl)
  next
    case False
    with m1 have "m = 1" by simp
    with pal0 False show ?thesis by (simp only: eq if_False sum.case)
  qed
qed

lemma Dither_empty:
  assumes "Dx (Bounds im) = 0 \<or> Dy (Bounds im) = 0" "0 \<le> Dx (Bounds im)" "0 \<le> Dy (Bounds im)"
    "length cp \<le> 256"
  shows "Dither PI im cp = Inr (Some \<lparr>Pix = [], Stride = Dx (Bounds im), Rect = Bounds im,
                                       Palette = cp\<rparr>)"
    and "dither211 PI im cp = Inr (Some \<lparr>Pix = [], Stride = Dx (Bounds im), Rect = Bounds im,
                                         Palette = cp\<rparr>)"
  using assms by (auto simp: Dither_def dither211_def Let_def NewPaletted_def Dx_def Dy_def)

text \<open>
  Claim C3.  On an image with empty, well-formed bounds, \<open>Dither\<close> and \<open>dither211\<close> return
  an empty paletted image (for a palette of at most 256 colours), but median \<open>Quantize\<close>
  and mean \<open>Image\<close> with a colour count of at least 1 do not return: \<open>paletted\<close> divides
  the colour sums of the single, empty cluster by \<open>n64 = 0\<close>.
\<close>

theorem empty_image_results:
  "0 \<le> Dx (Bounds im) \<and> 0 \<le> Dy (Bounds im) \<and> (Dx (Bounds im) = 0 \<or> Dy (Bounds im) = 0) \<longrightarrow>
     (1 \<le> n \<longrightarrow> median_Quantize im n = Inl IntegerDivideByZero
                \<and> mean_Image im n = Inl IntegerDivideByZero)
     \<and> (length cp \<le> 256 \<longrightarrow>
          Dither PI im cp = Inr (Some \<lparr>Pix = [], Stride = Dx (Bounds im), Rect = Bounds im,
                                        Palette = cp\<rparr>)
          \<and> dither211 PI im cp = Inr (Some \<lparr>Pix = [], Stride = Dx (Bounds im),
                                             Rect = Bounds im, Palette = cp\<rparr>))"
  using median_Quantize_empty [of im n] mean_Image_empty [of im n] Dither_empty [of im cp PI]
  by blast

theorem empty_image_results_witness:
  "0 \<le> Dx (Bounds empty_image) \<and> 0 \<le> Dy (Bounds empty_image) \<and> Dx (Bounds empty_image) = 0
   \<and> (1 :: int) \<le> 1 \<and> length black_palette \<le> 256
   \<and> median_Quantize empty_image 1 = Inl IntegerDivideByZero
   \<and> mean_Image empty_image 1 = Inl IntegerDivideByZero
   \<and> Dither first_index empty_image black_palette
        = Inr (Some \<lparr>Pix = [], Stride = 0, Rect = \<lparr>MinX = 0, MinY = 0, MaxX = 0, MaxY = 0\<rparr>,
                     Palette = black_palette\<rparr>)
   \<and> dither211 first_index empty_image black_palette
        = Inr (Some \<lparr>Pix = [], Stride = 0, Rect = \<lparr>MinX = 0, MinY = 0, MaxX = 0, MaxY = 0\<rparr>,
                     Palette = black_palette\<rparr>)"
proof -
  have h: "0 \<le> Dx (Bounds empty_image)" "0 \<le> Dy (Bounds empty_image)"
    "Dx (Bounds empty_image) = 0" "length black_palette \<le> 256"
    "Bounds empty_image = \<lparr>MinX = 0, MinY = 0, MaxX = 0, MaxY = 0\<rparr>"
    by (simp_all add: empty_image_def Dx_def Dy_def black_palette_def)
  from empty_image_results [of empty_image 1 black_palette first_index] h
  show ?thesis by simp
qed

section \<open>The colour count of mean's Image\<close>

lemma SetColorIndex_Palette: "Palette (SetColorIndex p x y i) = Palette p"
  by (simp add: SetColorIndex_def)

lemma set_pixels_Palette: "Palette (set_pixels ps i p) = Palette p"
  unfolding set_pixels_def by (induction ps arbitrary: p) (simp_all add: SetColorIndex_Palette)

lemma paletted_loop_Palette:
  "paletted_loop im arr cl i p = Inr p' \<Longrightarrow> length (Palette p') = length (Palette p)"
proof (induction cl arbitrary: i p)
  case Nil
  then show ?case by simp
next
  case (Cons c cl)
  from Cons.prems obtain col where
    "paletted_loop im arr cl (i + 1)
       (set_pixels (slice_elems arr (px c)) i (p\<lparr>Palette := (Palette p)[i := col]\<rparr>)) = Inr p'"
    by (auto split: sum.splits)
  from Cons.IH [OF this] show ?case by (simp add: set_pixels_Palette)
qed

lemma paletted_of_Palette:
  "paletted_of qz = Inr p \<Longrightarrow> length (Palette p) = length (cs qz)"
  by (auto simp: paletted_of_def NewPaletted_def split: sum.splits if_splits dest!: paletted_loop_Palette)

lemma mean_cluster_loop_rule:
  assumes "I qz cx"
    and "\<And>qz cx qz' cx'. I qz cx \<Longrightarrow> mean_cluster_body qz cx = Continue (qz', cx') \<Longrightarrow> I qz' cx'"
    and "\<And>qz cx r. I qz cx \<Longrightarrow> mean_cluster_body qz cx = Break (Inr r) \<Longrightarrow> Q r"
    and "mean_cluster_loop qz cx = Inr r"
  shows "Q r"
  using assms(1,4)
proof (induction qz cx rule: mean_cluster_loop.induct)
  case (1 qz cx)
  show ?case
  proof (cases "mean_cluster_body qz cx")
    case (Break x)
    with "1.prems" assms(3) show ?thesis
      by (subst (asm) mean_cluster_loop.simps) auto
  next
    case (Continue st)
    obtain qz' cx' where st: "st = (qz', cx')" by (cases st)
    from "1.prems"(2) Continue st have "mean_cluster_loop qz' cx' = Inr r"
      by (subst (asm) mean_cluster_loop.simps) simp
    moreover from assms(2) "1.prems"(1) Continue st have "I qz' cx'" by blast
    ultimately show ?thesis using "1.IH" Continue st by blast
  qed
qed

lemma mean_cluster_body_length:
  "mean_cluster_body qz cx = Continue (qz', cx') \<Longrightarrow> length (cs qz') = length (cs qz)"
  by (auto simp: mean_cluster_body_def Let_def change_priorities_def
           split: prod.splits sum.splits if_splits)

lemma mean_cluster_body_Break_length:
  "mean_cluster_body qz cx = Break (Inr r) \<Longrightarrow> length (cs r) \<le> length (cs qz)"
  by (auto simp: mean_cluster_body_def Let_def change_priorities_def
           split: prod.splits sum.splits if_splits)

lemma mean_cluster_loop_length:
  assumes "mean_cluster_loop qz cx = Inr qz'" shows "length (cs qz') \<le> length (cs qz)"
proof (rule mean_cluster_loop_rule [where I = "\<lambda>q c. length (cs q) = length (cs qz)"
       and Q = "\<lambda>r. length (cs r) \<le> length (cs qz)", OF _ _ _ assms])
  show "length (cs qz) = length (cs qz)" by simp
  show "\<And>q c q' c'. length (cs q) = length (cs qz) \<Longrightarrow> mean_cluster_body q c = Continue (q', c') \<Longrightarrow> length (cs q') = length (cs qz)"
    using mean_cluster_body_length by simp
  show "\<And>q c r. length (cs q) = length (cs qz) \<Longrightarrow> mean_cluster_body q c = Break (Inr r) \<Longrightarrow> length (cs r) \<le> length (cs qz)"
    using mean_cluster_body_Break_length by metis
qed

lemma mean_Image_clamp: "256 < n \<Longrightarrow> mean_Image im n = mean_Image im 256"
  by (simp add: mean_Image_def)

lemma mean_Image_palette:
  assumes "mean_Image im n = Inr p" shows "length (Palette p) \<le> 256"
proof -
  define m where "m = (if n > 256 then 256 else n)"
  have m: "m \<le> 256" by (simp add: m_def)
  from assms obtain qz qz' where q: "mean_newQuantizer im m = Inr qz"
    "(if m > 1 then mean_cluster qz else Inr qz) = Inr qz'" "mean_paletted qz' = Inr p"
    unfolding mean_Image_def Let_def m_def [symmetric] by (auto split: sum.splits)
  from q(1) m have "length (cs qz) \<le> 256"
    by (auto simp: mean_newQuantizer_def Let_def split: if_splits)
  moreover from q(2) have "length (cs qz') \<le> length (cs qz)"
    by (auto simp: mean_cluster_def split: if_splits dest: mean_cluster_loop_length)
  moreover from q(3) have "length (Palette p) = length (cs qz')"
    by (simp add: mean_paletted_def paletted_of_Palette)
  ultimately show ?thesis by simp
qed

lemma mean_Image_one_image:
  "mean_Image one_image 300 =
     Inr \<lparr>Pix = [0], Stride = 1, Rect = \<lparr>MinX = 0, MinY = 0, MaxX = 1, MaxY = 1\<rparr>,
          Palette = [RGBA 0 0 0 255]\<rparr>"
  by code_simp

text \<open>
  Claim C10.  \<open>Image\<close> of package mean replaces a colour count above 256 by 256: for
  \<open>n > 256\<close> it returns what it returns for 256, and an image it returns never has more
  than 256 palette entries.
\<close>

theorem mean_Image_clamps:
  "(256 < n \<longrightarrow> mean_Image im n = mean_Image im 256)
   \<and> (mean_Image im n = Inr p \<longrightarrow> length (Palette p) \<le> 256)"
  using mean_Image_clamp [of n im] mean_Image_palette [of im n p] by blast

theorem mean_Image_clamps_witness:
  "(256 :: int) < 300
   \<and> mean_Image one_image 300 =
       Inr \<lparr>Pix = [0], Stride = 1, Rect = \<lparr>MinX = 0, MinY = 0, MaxX = 1, MaxY = 1\<rparr>,
            Palette = [RGBA 0 0 0 255]\<rparr>
   \<and> mean_Image one_image 300 = mean_Image one_image 256
   \<and> length (Palette \<lparr>Pix = [0], Stride = 1, Rect = \<lparr>MinX = 0, MinY = 0, MaxX = 1, MaxY = 1\<rparr>,
                      Palette = [RGBA 0 0 0 255]\<rparr>) \<le> 256"
  using mean_Image_clamps [of 300 one_image
          "\<lparr>Pix = [0], Stride = 1, Rect = \<lparr>MinX = 0, MinY = 0, MaxX = 1, MaxY = 1\<rparr>,
            Palette = [RGBA 0 0 0 255]\<rparr>"]
        mean_Image_one_image
  by simp

section \<open>The split loop\<close>

lemma split_loop_props:
  "0 \<le> i \<Longrightarrow> i \<le> lst + 1 \<Longrightarrow> int ofs + lst < int (length arr) \<Longrightarrow>
   split_loop low ofs arr i lst = (arr', k) \<Longrightarrow>
   length arr' = length arr \<and> i \<le> k \<and> k \<le> lst + 1 \<and> mset arr' = mset arr
     \<and> (\<forall>j. j < ofs + nat i \<or> int ofs + lst < int j \<longrightarrow> arr' ! j = arr ! j)
     \<and> (\<forall>j. i \<le> j \<and> j < k \<longrightarrow> low (arr' ! (ofs + nat j)))
     \<and> (\<forall>j. k \<le> j \<and> j \<le> lst \<longrightarrow> \<not> low (arr' ! (ofs + nat j)))"
proof (induction low ofs arr i lst arbitrary: arr' k rule: split_loop.induct)
  case (1 low ofs arr i lst)
  show ?case
  proof (cases "i \<le> lst")
    case False
    with "1.prems"(4) have e: "arr' = arr" "k = i"
      by (simp_all add: split_loop.simps [of low ofs arr i lst])
    from False "1.prems"(2) have "\<And>j. \<not> (i \<le> j \<and> j < i)" "\<And>j. \<not> (i \<le> j \<and> j \<le> lst)"
      by linarith+
    with "1.prems"(2) show ?thesis unfolding e by blast
  next
    case True
    show ?thesis
    proof (cases "low (arr ! (ofs + nat i))")
      case low: True
      with True "1.prems"(4) have r: "split_loop low ofs arr (i + 1) lst = (arr', k)"
        by (simp add: split_loop.simps [of low ofs arr i lst])
      from "1.IH"(1) [OF True low _ _ "1.prems"(3) r] True "1.prems"(1)
      have ih: "length arr' = length arr" "i + 1 \<le> k" "k \<le> lst + 1" "mset arr' = mset arr"
        "\<forall>j. j < ofs + nat (i + 1) \<or> int ofs + lst < int j \<longrightarrow> arr' ! j = arr ! j"
        "\<forall>j. i + 1 \<le> j \<and> j < k \<longrightarrow> low (arr' ! (ofs + nat j))"
        "\<forall>j. k \<le> j \<and> j \<le> lst \<longrightarrow> \<not> low (arr' ! (ofs + nat j))"
        by auto
      have fr: "\<forall>j. j < ofs + nat i \<or> int ofs + lst < int j \<longrightarrow> arr' ! j = arr ! j"
        using ih(5) "1.prems"(1) by auto
      have "arr' ! (ofs + nat i) = arr ! (ofs + nat i)"
        using ih(5) "1.prems"(1) by auto
      with low have li: "low (arr' ! (ofs + nat i))" by simp
      have lo: "\<forall>j. i \<le> j \<and> j < k \<longrightarrow> low (arr' ! (ofs + nat j))"
      proof (intro allI impI)
        fix j assume "i \<le> j \<and> j < k"
        then consider "j = i" | "i + 1 \<le> j \<and> j < k" by linarith
        then show "low (arr' ! (ofs + nat j))" using li ih(6) by cases auto
      qed
      from ih fr lo show ?thesis by auto
    next
      case high: False
      let ?arr2 = "arr[ofs + nat lst := arr ! (ofs + nat i), ofs + nat i := arr ! (ofs + nat lst)]"
      from True high "1.prems"(4) have r: "split_loop low ofs ?arr2 i (lst - 1) = (arr', k)"
        by (simp add: split_loop.simps [of low ofs arr i lst])
      from True "1.prems" have b: "ofs + nat lst < length arr" "ofs + nat i < length arr" "0 \<le> lst"
        by auto
      have len2: "length ?arr2 = length arr" by simp
      have ms2: "mset ?arr2 = mset arr" using b by (simp add: mset_swap)
      from "1.IH"(2) [OF True high "1.prems"(1) _ _ r] True "1.prems"(3)
      have ih: "length arr' = length ?arr2" "i \<le> k" "k \<le> lst - 1 + 1" "mset arr' = mset ?arr2"
        "\<forall>j. j < ofs + nat i \<or> int ofs + (lst - 1) < int j \<longrightarrow> arr' ! j = ?arr2 ! j"
        "\<forall>j. i \<le> j \<and> j < k \<longrightarrow> low (arr' ! (ofs + nat j))"
        "\<forall>j. k \<le> j \<and> j \<le> lst - 1 \<longrightarrow> \<not> low (arr' ! (ofs + nat j))"
        by auto
      have fr: "\<forall>j. j < ofs + nat i \<or> int ofs + lst < int j \<longrightarrow> arr' ! j = arr ! j"
      proof (intro allI impI)
        fix j assume j: "j < ofs + nat i \<or> int ofs + lst < int j"
        with True b "1.prems"(1) have ne: "j \<noteq> ofs + nat i" "j \<noteq> ofs + nat lst" by auto
        from j have "arr' ! j = ?arr2 ! j" using ih(5) by auto
        with ne show "arr' ! j = arr ! j" by simp
      qed
      have "arr' ! (ofs + nat lst) = ?arr2 ! (ofs + nat lst)"
        using ih(5) b by auto
      also have "\<dots> = arr ! (ofs + nat i)" using b by (auto simp: nth_list_update)
      finally have hl: "\<not> low (arr' ! (ofs + nat lst))" using high by simp
      have hi: "\<forall>j. k \<le> j \<and> j \<le> lst \<longrightarrow> \<not> low (arr' ! (ofs + nat j))"
      proof (intro allI impI)
        fix j assume "k \<le> j \<and> j \<le> lst"
        then consider "j = lst" | "k \<le> j \<and> j \<le> lst - 1" by linarith
        then show "\<not> low (arr' ! (ofs + nat j))" using hl ih(7) by cases auto
      qed
      from ih len2 ms2 fr hi show ?thesis by auto
    qed
  qed
qed


lemma slice_elems_take_drop:
  "ofs + n \<le> length arr \<Longrightarrow> slice_elems arr \<lparr>off = ofs, len = n\<rparr> = take n (drop ofs arr)"
  by (auto simp: slice_elems_def slice_idxs_def list_eq_iff_nth_eq)

lemma slice_elems_append:
  "k \<le> n \<Longrightarrow> slice_elems arr \<lparr>off = ofs, len = n\<rparr>
     = slice_elems arr \<lparr>off = ofs, len = k\<rparr> @ slice_elems arr \<lparr>off = ofs + k, len = n - k\<rparr>"
proof -
  assume kn: "k \<le> n"
  have "[ofs ..< ofs + k + (n - k)] = [ofs ..< ofs + k] @ [ofs + k ..< ofs + k + (n - k)]"
    by (rule upt_add_eq_append) simp
  moreover from kn have "ofs + k + (n - k) = ofs + n" by simp
  ultimately have "[ofs ..< ofs + n] = [ofs ..< ofs + k] @ [ofs + k ..< ofs + k + (n - k)]"
    by simp
  then show ?thesis by (simp add: slice_elems_def slice_idxs_def)
qed

lemma arr_decompose:
  "ofs + n \<le> length arr \<Longrightarrow>
   arr = take ofs arr @ slice_elems arr \<lparr>off = ofs, len = n\<rparr> @ drop (ofs + n) arr"
proof -
  assume "ofs + n \<le> length arr"
  have "take n (drop ofs arr) @ drop n (drop ofs arr) = drop ofs arr"
    by (rule append_take_drop_id)
  moreover have "drop n (drop ofs arr) = drop (ofs + n) arr" by (simp add: add.commute)
  ultimately have "take n (drop ofs arr) @ drop (ofs + n) arr = drop ofs arr" by simp
  moreover have "take ofs arr @ drop ofs arr = arr" by (rule append_take_drop_id)
  ultimately have "arr = take ofs arr @ take n (drop ofs arr) @ drop (ofs + n) arr" by simp
  with \<open>ofs + n \<le> length arr\<close> show ?thesis by (simp add: slice_elems_take_drop)
qed

lemma frame_take:
  assumes "length arr' = length arr" "\<forall>j. j < ofs \<longrightarrow> arr' ! j = arr ! j"
  shows "take ofs arr' = take ofs arr"
  using assms by (auto simp: list_eq_iff_nth_eq)

lemma frame_drop:
  assumes "length arr' = length arr" "\<forall>j. m \<le> j \<longrightarrow> arr' ! j = arr ! j"
  shows "drop m arr' = drop m arr"
  using assms by (auto simp: list_eq_iff_nth_eq)

lemma split_window:
  assumes b: "ofs + n \<le> length arr"
    and r: "split_loop low ofs arr 0 (int n - 1) = (arr', k)"
  shows "0 \<le> k \<and> nat k \<le> n \<and> length arr' = length arr \<and> mset arr' = mset arr
     \<and> (\<forall>j. j < ofs \<or> ofs + n \<le> j \<longrightarrow> arr' ! j = arr ! j)
     \<and> (\<forall>p \<in> set (slice_elems arr' \<lparr>off = ofs, len = nat k\<rparr>). low p)
     \<and> (\<forall>p \<in> set (slice_elems arr' \<lparr>off = ofs + nat k, len = n - nat k\<rparr>). \<not> low p)
     \<and> mset (slice_elems arr' \<lparr>off = ofs, len = n\<rparr>) = mset (slice_elems arr \<lparr>off = ofs, len = n\<rparr>)
     \<and> nat k = length (filter low (slice_elems arr \<lparr>off = ofs, len = n\<rparr>))"
proof -
  have pre: "(0::int) \<le> 0" "0 \<le> int n - 1 + 1" "int ofs + (int n - 1) < int (length arr)"
    using b by auto
  from split_loop_props [OF pre r]
  have p: "length arr' = length arr" "0 \<le> k" "k \<le> int n - 1 + 1" "mset arr' = mset arr"
    "\<forall>j. j < ofs + nat 0 \<or> int ofs + (int n - 1) < int j \<longrightarrow> arr' ! j = arr ! j"
    "\<forall>j. 0 \<le> j \<and> j < k \<longrightarrow> low (arr' ! (ofs + nat j))"
    "\<forall>j. k \<le> j \<and> j \<le> int n - 1 \<longrightarrow> \<not> low (arr' ! (ofs + nat j))"
    by auto
  have kn: "nat k \<le> n" using p(2,3) by auto
  have fr: "\<forall>j. j < ofs \<or> ofs + n \<le> j \<longrightarrow> arr' ! j = arr ! j"
  proof (intro allI impI)
    fix j assume "j < ofs \<or> ofs + n \<le> j"
    then have "j < ofs + nat 0 \<or> int ofs + (int n - 1) < int j" by auto
    with p(5) show "arr' ! j = arr ! j" by blast
  qed
  have lo: "\<forall>p \<in> set (slice_elems arr' \<lparr>off = ofs, len = nat k\<rparr>). low p"
  proof
    fix q assume "q \<in> set (slice_elems arr' \<lparr>off = ofs, len = nat k\<rparr>)"
    then obtain i where i: "ofs \<le> i" "i < ofs + nat k" "q = arr' ! i"
      by (auto simp: slice_elems_def slice_idxs_def)
    define j where "j = i - ofs"
    with i have j: "0 \<le> int j \<and> int j < k" "ofs + j = i" by auto
    from p(6) [rule_format, OF j(1)] j(2) i(3) show "low q" by simp
  qed
  have hi: "\<forall>p \<in> set (slice_elems arr' \<lparr>off = ofs + nat k, len = n - nat k\<rparr>). \<not> low p"
  proof
    fix q assume "q \<in> set (slice_elems arr' \<lparr>off = ofs + nat k, len = n - nat k\<rparr>)"
    then obtain i where i: "ofs + nat k \<le> i" "i < ofs + nat k + (n - nat k)" "q = arr' ! i"
      by (auto simp: slice_elems_def slice_idxs_def)
    define j where "j = i - ofs"
    with i kn p(2) have j: "k \<le> int j \<and> int j \<le> int n - 1" "ofs + j = i" by auto
    from p(7) [rule_format, OF j(1)] j(2) i(3) show "\<not> low q" by simp
  qed
  have b': "ofs + n \<le> length arr'" using b p(1) by simp
  have t: "take ofs arr' = take ofs arr" using fr p(1) by (intro frame_take) auto
  have d: "drop (ofs + n) arr' = drop (ofs + n) arr" using fr p(1) by (intro frame_drop) auto
  have "mset (take ofs arr @ slice_elems arr' \<lparr>off = ofs, len = n\<rparr> @ drop (ofs + n) arr)
      = mset arr'"
    using arg_cong [where f = mset, OF arr_decompose [OF b']] unfolding t d by simp
  also have "\<dots> = mset arr" by (rule p(4))
  also have "\<dots> = mset (take ofs arr @ slice_elems arr \<lparr>off = ofs, len = n\<rparr> @ drop (ofs + n) arr)"
    by (rule arg_cong [where f = mset, OF arr_decompose [OF b]])
  finally have ms: "mset (slice_elems arr' \<lparr>off = ofs, len = n\<rparr>) = mset (slice_elems arr \<lparr>off = ofs, len = n\<rparr>)"
    by simp
  have "length (filter low (slice_elems arr \<lparr>off = ofs, len = n\<rparr>))
      = size (filter_mset low (mset (slice_elems arr \<lparr>off = ofs, len = n\<rparr>)))"
    by (metis mset_filter size_mset)
  also have "\<dots> = size (filter_mset low (mset (slice_elems arr' \<lparr>off = ofs, len = n\<rparr>)))"
    by (simp add: ms)
  also have "\<dots> = length (filter low (slice_elems arr' \<lparr>off = ofs, len = n\<rparr>))"
    by (metis mset_filter size_mset)
  also have "\<dots> = length (filter low (slice_elems arr' \<lparr>off = ofs, len = nat k\<rparr>))
      + length (filter low (slice_elems arr' \<lparr>off = ofs + nat k, len = n - nat k\<rparr>))"
    by (simp add: slice_elems_append [OF kn])
  also have "\<dots> = nat k"
    using lo hi by (simp add: slice_elems_def slice_idxs_def)
  finally show ?thesis using p kn fr lo hi ms by simp
qed


section \<open>Extents and colour variation\<close>















section \<open>The median cut\<close>








section \<open>Cut values split a cluster in two\<close>
















section \<open>The priority queue keeps its elements\<close>

lemma queue_Swap_props:
  "i < length q \<Longrightarrow> j < length q \<Longrightarrow>
   length (queue_Swap q i j) = length q \<and> mset (queue_Swap q i j) = mset q"
  unfolding queue_Swap_def by (simp add: mset_swap)

lemma queue_Swap_nth:
  "k \<noteq> i \<Longrightarrow> k \<noteq> j \<Longrightarrow> queue_Swap q i j ! k = q ! k"
  unfolding queue_Swap_def by simp

lemma heap_up_props:
  "j < length q \<Longrightarrow> length (heap_up cl q j) = length q \<and> mset (heap_up cl q j) = mset q"
proof (induction cl q j rule: heap_up.induct)
  case (1 cl q j)
  define i where "i = (j - 1) div 2"
  show ?case
  proof (cases "i = j \<or> \<not> queue_Less cl q j i")
    case True
    then show ?thesis by (subst (1 2) heap_up.simps) (simp add: i_def Let_def)
  next
    case False
    then have r: "heap_up cl q j = heap_up cl (queue_Swap q i j) i"
      by (subst heap_up.simps) (simp add: i_def Let_def)
    have ij: "i < length q" using "1.prems" by (simp add: i_def)
    from queue_Swap_props [OF ij "1.prems"]
    have sw: "length (queue_Swap q i j) = length q" "mset (queue_Swap q i j) = mset q" by auto
    from False have "\<not> (i = j \<or> \<not> queue_Less cl q j i)" by simp
    from "1.IH" [OF i_def this] ij sw show ?thesis unfolding r by simp
  qed
qed

lemma heap_down_props:
  "n \<le> length q \<Longrightarrow>
   length (heap_down cl q i n) = length q \<and> mset (heap_down cl q i n) = mset q
   \<and> (\<forall>k. n \<le> k \<longrightarrow> heap_down cl q i n ! k = q ! k)"
proof (induction cl q i n rule: heap_down.induct)
  case (1 cl q i n)
  define j1 where "j1 = 2 * i + 1"
  define j where "j = (if j1 + 1 < n \<and> queue_Less cl q (j1 + 1) j1 then j1 + 1 else j1)"
  show ?case
  proof (cases "j1 \<ge> n \<or> \<not> queue_Less cl q j i")
    case True
    then have "heap_down cl q i n = q"
      by (subst heap_down.simps) (auto simp: j1_def j_def Let_def)
    then show ?thesis by simp
  next
    case False
    then have r: "heap_down cl q i n = heap_down cl (queue_Swap q i j) j n"
      by (subst heap_down.simps) (auto simp: j1_def j_def Let_def)
    from False have j1n: "j1 < n" by simp
    then have jn: "j < n" "i < n" by (auto simp: j_def j1_def)
    with "1.prems" have b: "i < length q" "j < length q" by simp_all
    from queue_Swap_props [OF b]
    have sw: "length (queue_Swap q i j) = length q" "mset (queue_Swap q i j) = mset q" by auto
    from False have c1: "\<not> n \<le> j1" and c2: "\<not> \<not> queue_Less cl q j i" by simp_all
    from "1.prems" sw have p: "n \<le> length (queue_Swap q i j)" by simp
    from "1.IH" [OF j1_def c1 j_def c2 p]
    have ih: "length (heap_down cl (queue_Swap q i j) j n) = length (queue_Swap q i j)"
      "mset (heap_down cl (queue_Swap q i j) j n) = mset (queue_Swap q i j)"
      "\<forall>k. n \<le> k \<longrightarrow> heap_down cl (queue_Swap q i j) j n ! k = queue_Swap q i j ! k"
      by blast+
    have "\<forall>k. n \<le> k \<longrightarrow> heap_down cl (queue_Swap q i j) j n ! k = q ! k"
    proof (intro allI impI)
      fix k assume k: "n \<le> k"
      with ih(3) have "heap_down cl (queue_Swap q i j) j n ! k = queue_Swap q i j ! k" by blast
      also from k jn have "\<dots> = q ! k" by (intro queue_Swap_nth) auto
      finally show "heap_down cl (queue_Swap q i j) j n ! k = q ! k" .
    qed
    with ih sw show ?thesis unfolding r by simp
  qed
qed

lemma heap_Push_props:
  "length (heap_Push cl q x) = Suc (length q) \<and> mset (heap_Push cl q x) = add_mset x (mset q)"
  using heap_up_props [of "length q" "q @ [x]" cl] by (simp add: heap_Push_def)

lemma heap_Pop_props:
  assumes "q \<noteq> []" "heap_Pop cl q = (s, q')"
  shows "mset q = add_mset s (mset q') \<and> Suc (length q') = length q"
proof -
  define n where "n = length q - 1"
  define q1 where "q1 = queue_Swap q 0 n"
  define q2 where "q2 = heap_down cl q1 0 n"
  from assms(1) have n: "n < length q" "0 < length q" by (simp_all add: n_def)
  from queue_Swap_props [OF n(2) n(1)] have s1: "length q1 = length q" "mset q1 = mset q"
    by (simp_all add: q1_def)
  from heap_down_props [of n q1 cl 0] s1 n
  have s2: "length q2 = length q" "mset q2 = mset q" "q2 ! n = q1 ! n"
    by (simp_all add: q2_def)
  from assms(2) have sq: "s = q2 ! n" "q' = take n q2"
    unfolding heap_Pop_def Let_def q2_def q1_def n_def by auto
  from s2(1) n have "take (Suc n) q2 = take n q2 @ [q2 ! n]" by (intro take_Suc_conv_app_nth) simp
  moreover from s2(1) n have "take (Suc n) q2 = q2" by (simp add: n_def)
  ultimately have "mset q2 = mset (take n q2 @ [q2 ! n])" by simp
  then have "mset q2 = add_mset (q2 ! n) (mset (take n q2))" by simp
  with s2 sq n show ?thesis by (simp add: n_def)
qed


section \<open>Slices that tile the pixel array\<close>

lemma concat_update_mset:
  "k < length xs \<Longrightarrow>
   mset (concat (map f (xs[k := a]))) + mset (f (xs ! k)) = mset (concat (map f xs)) + mset (f a)"
proof (induction xs arbitrary: k)
  case Nil
  then show ?case by simp
next
  case (Cons x xs)
  show ?case
  proof (cases k)
    case 0
    then show ?thesis by simp
  next
    case (Suc k')
    with Cons.prems have "k' < length xs" by simp
    from Cons.IH [OF this] Suc show ?thesis by (simp add: add.assoc)
  qed
qed

lemma slice_idxs_split:
  "k \<le> len s \<Longrightarrow>
   slice_idxs s = slice_idxs \<lparr>off = off s, len = k\<rparr> @ slice_idxs \<lparr>off = off s + k, len = len s - k\<rparr>"
proof -
  assume kn: "k \<le> len s"
  have "[off s ..< off s + k + (len s - k)] = [off s ..< off s + k] @ [off s + k ..< off s + k + (len s - k)]"
    by (rule upt_add_eq_append) simp
  moreover from kn have "off s + k + (len s - k) = off s + len s" by simp
  ultimately show ?thesis by (simp add: slice_idxs_def)
qed

lemma tiles_split:
  assumes t: "tiles n ss" and s: "s < length ss" and k: "k \<le> len (ss ! s)"
  shows "tiles n (ss[s := \<lparr>off = off (ss ! s), len = k\<rparr>]
                  @ [\<lparr>off = off (ss ! s) + k, len = len (ss ! s) - k\<rparr>])"
proof -
  let ?a = "\<lparr>off = off (ss ! s), len = k\<rparr>" and ?b = "\<lparr>off = off (ss ! s) + k, len = len (ss ! s) - k\<rparr>"
  from concat_update_mset [OF s, of slice_idxs ?a]
  have "mset (concat (map slice_idxs (ss[s := ?a]))) + mset (slice_idxs (ss ! s))
      = mset (concat (map slice_idxs ss)) + mset (slice_idxs ?a)" .
  moreover from slice_idxs_split [OF k]
  have "mset (slice_idxs (ss ! s)) = mset (slice_idxs ?a) + mset (slice_idxs ?b)" by simp
  ultimately have "mset (concat (map slice_idxs (ss[s := ?a]))) + mset (slice_idxs ?b)
      = mset (concat (map slice_idxs ss))"
    by (simp add: add.assoc [symmetric])
  with t have m: "mset (concat (map slice_idxs (ss[s := ?a] @ [?b]))) = mset [0 ..< n]"
    by (simp add: tiles_def)
  from t s have bs: "off (ss ! s) + len (ss ! s) \<le> n" by (simp add: tiles_def)
  have "\<forall>x \<in> set (ss[s := ?a] @ [?b]). off x + len x \<le> n"
  proof
    fix x assume "x \<in> set (ss[s := ?a] @ [?b])"
    then consider "x = ?b" | "x \<in> set (ss[s := ?a])" by auto
    then show "off x + len x \<le> n"
    proof cases
      case 1
      with bs k show ?thesis by simp
    next
      case 2
      then have "x = ?a \<or> x \<in> set ss" using set_update_subset_insert [of ss s ?a] by auto
      with bs k t show ?thesis by (auto simp: tiles_def)
    qed
  qed
  with m show ?thesis by (simp add: tiles_def)
qed

lemma tiles_disjoint:
  assumes t: "tiles n ss" and ij: "i < length ss" "j < length ss" "i \<noteq> j"
  shows "set (slice_idxs (ss ! i)) \<inter> set (slice_idxs (ss ! j)) = {}"
proof -
  have d: "distinct (concat (map slice_idxs ss))"
    using t by (metis tiles_def distinct_upt mset_eq_imp_distinct_iff)
  have gen: "set (slice_idxs (ss ! a)) \<inter> set (slice_idxs (ss ! b)) = {}"
    if ab: "a < b" "b < length ss" for a b
  proof -
    from ab have "ss = take a ss @ ss ! a # drop (Suc a) ss" by (intro id_take_nth_drop) simp
    moreover from ab have "drop (Suc a) ss ! (b - Suc a) = ss ! b" by simp
    moreover from ab have "b - Suc a < length (drop (Suc a) ss)" by simp
    ultimately obtain ys where ys: "ss = take a ss @ ss ! a # ys" "ss ! b \<in> set ys"
      by (metis nth_mem)
    from d have "distinct (concat (map slice_idxs (take a ss @ ss ! a # ys)))"
      using ys(1) by simp
    then have "set (slice_idxs (ss ! a)) \<inter> set (concat (map slice_idxs ys)) = {}"
      by auto
    with ys(2) show ?thesis by auto
  qed
  from ij consider "i < j" | "j < i" by linarith
  then show ?thesis using gen ij by cases blast+
qed

lemma tiles_elems:
  assumes "tiles (length arr) ss"
  shows "mset (concat (map (slice_elems arr) ss)) = mset arr"
proof -
  have "slice_elems arr = (\<lambda>s. map (\<lambda>k. arr ! k) (slice_idxs s))"
    by (rule ext) (simp add: slice_elems_def)
  then have "concat (map (slice_elems arr) ss) = map (\<lambda>k. arr ! k) (concat (map slice_idxs ss))"
    by (simp add: map_concat comp_def)
  then have "mset (concat (map (slice_elems arr) ss))
      = image_mset (\<lambda>k. arr ! k) (mset (concat (map slice_idxs ss)))" by simp
  also have "\<dots> = image_mset (\<lambda>k. arr ! k) (mset [0 ..< length arr])"
    using assms by (simp add: tiles_def)
  also have "\<dots> = mset (map (\<lambda>k. arr ! k) [0 ..< length arr])" by simp
  also have "\<dots> = mset arr" by (simp add: map_nth)
  finally show ?thesis .
qed

lemma frame_slice:
  assumes fr: "\<forall>j. j < off s \<or> off s + len s \<le> j \<longrightarrow> arr' ! j = arr ! j"
    and dj: "set (slice_idxs t) \<inter> set (slice_idxs s) = {}"
  shows "slice_elems arr' t = slice_elems arr t"
proof -
  have "\<And>k. k \<in> set (slice_idxs t) \<Longrightarrow> arr' ! k = arr ! k"
  proof -
    fix k assume "k \<in> set (slice_idxs t)"
    with dj have "k \<notin> set (slice_idxs s)" by blast
    then have "k < off s \<or> off s + len s \<le> k" by (auto simp: slice_idxs_def)
    with fr show "arr' ! k = arr ! k" by blast
  qed
  then show ?thesis by (simp add: slice_elems_def)
qed


section \<open>One split of a live cluster\<close>

lemma take_Suc_update2:
  assumes "s < i" "i < length cl"
  shows "take (Suc i) (cl[s := a, i := b]) = (take i cl)[s := a] @ [b]"
proof -
  from assms have "take (Suc i) (cl[s := a, i := b]) = take i (cl[s := a, i := b]) @ [cl[s := a, i := b] ! i]"
    by (intro take_Suc_conv_app_nth) simp
  moreover from assms have "cl[s := a, i := b] ! i = b" by simp
  moreover have "take i (cl[s := a, i := b]) = take i (cl[s := a])" by (rule take_update_cancel) simp
  moreover from assms have "take i (cl[s := a]) = (take i cl)[s := a]" by (intro take_update_swap)
  ultimately show ?thesis by simp
qed

text \<open>One call of split on the cluster list: \<open>s\<close> is a live cluster, \<open>i\<close> the next free place.\<close>

lemma split_step:
  fixes cl :: "('a cluster_scheme) list"
  assumes t: "tiles (length arr) (map px (take i cl))"
    and si: "s < i" "i < length cl"
    and r: "split_loop low (off (px (cl ! s))) arr 0 (int (len (px (cl ! s))) - 1) = (arr', k)"
    and sl: "split_slices (px (cl ! s)) k = (lo, hi)"
    and cl2: "cl2 = cl[s := (cl ! s)\<lparr>px := lo\<rparr>, i := (cl ! i)\<lparr>px := hi\<rparr>]"
  shows "tiles (length arr') (map px (take (Suc i) cl2))"
    and "length arr' = length arr" and "mset arr' = mset arr"
    and "\<forall>j < i. j \<noteq> s \<longrightarrow> cl2 ! j = cl ! j
            \<and> slice_elems arr' (px (cl2 ! j)) = slice_elems arr (px (cl ! j))"
    and "px (cl2 ! s) = lo" and "px (cl2 ! i) = hi"
    and "len lo = length (filter low (slice_elems arr (px (cl ! s))))"
    and "len lo + len hi = len (px (cl ! s))"
    and "\<forall>p \<in> set (slice_elems arr' lo). low p"
    and "\<forall>p \<in> set (slice_elems arr' hi). \<not> low p"
    and "mset (slice_elems arr' lo) + mset (slice_elems arr' hi) = mset (slice_elems arr (px (cl ! s)))"
proof -
  let ?ss = "map px (take i cl)"
  let ?p = "px (cl ! s)"
  from si have sl': "s < length ?ss" "?ss ! s = ?p" by simp_all
  from t sl' have b: "off ?p + len ?p \<le> length arr" unfolding tiles_def by (metis nth_mem)
  from split_window [OF b r]
  have w: "0 \<le> k" "nat k \<le> len ?p" "length arr' = length arr" "mset arr' = mset arr"
    "\<forall>j. j < off ?p \<or> off ?p + len ?p \<le> j \<longrightarrow> arr' ! j = arr ! j"
    "\<forall>p \<in> set (slice_elems arr' \<lparr>off = off ?p, len = nat k\<rparr>). low p"
    "\<forall>p \<in> set (slice_elems arr' \<lparr>off = off ?p + nat k, len = len ?p - nat k\<rparr>). \<not> low p"
    "mset (slice_elems arr' \<lparr>off = off ?p, len = len ?p\<rparr>) = mset (slice_elems arr \<lparr>off = off ?p, len = len ?p\<rparr>)"
    "nat k = length (filter low (slice_elems arr \<lparr>off = off ?p, len = len ?p\<rparr>))"
    by blast+
  from sl have lh: "lo = \<lparr>off = off ?p, len = nat k\<rparr>" "hi = \<lparr>off = off ?p + nat k, len = len ?p - nat k\<rparr>"
    by (simp_all add: split_slices_def)
  have pe: "\<lparr>off = off ?p, len = len ?p\<rparr> = ?p" by simp
  show "length arr' = length arr" by (rule w(3))
  show "mset arr' = mset arr" by (rule w(4))
  from si have tk: "take (Suc i) cl2 = (take i cl)[s := (cl ! s)\<lparr>px := lo\<rparr>] @ [(cl ! i)\<lparr>px := hi\<rparr>]"
    unfolding cl2 by (rule take_Suc_update2)
  have "map px (take (Suc i) cl2) = ?ss[s := lo] @ [hi]"
    unfolding tk by (simp add: map_update)
  moreover from tiles_split [OF t sl'(1), of "nat k"] w(2) sl'(2)
  have "tiles (length arr) (?ss[s := lo] @ [hi])" by (simp add: lh)
  ultimately show "tiles (length arr') (map px (take (Suc i) cl2))" by (simp add: w(3))
  from si show "px (cl2 ! s) = lo" unfolding cl2 by simp
  from si show "px (cl2 ! i) = hi" unfolding cl2 by simp
  show "len lo = length (filter low (slice_elems arr ?p))" using w(9) by (simp add: lh pe)
  show "len lo + len hi = len ?p" using w(2) by (simp add: lh)
  show "\<forall>p \<in> set (slice_elems arr' lo). low p" using w(6) by (simp add: lh)
  show "\<forall>p \<in> set (slice_elems arr' hi). \<not> low p" using w(7) by (simp add: lh)
  have "slice_elems arr' ?p = slice_elems arr' lo @ slice_elems arr' hi"
    using slice_elems_append [OF w(2), of arr' "off ?p"] by (simp add: lh pe)
  then show "mset (slice_elems arr' lo) + mset (slice_elems arr' hi) = mset (slice_elems arr ?p)"
    using w(8) by (simp add: pe)
  show "\<forall>j < i. j \<noteq> s \<longrightarrow> cl2 ! j = cl ! j
            \<and> slice_elems arr' (px (cl2 ! j)) = slice_elems arr (px (cl ! j))"
  proof (intro allI impI)
    fix j assume j: "j < i" "j \<noteq> s"
    with si have e: "cl2 ! j = cl ! j" unfolding cl2 by simp
    from j si have "j < length ?ss" "?ss ! j = px (cl ! j)" by simp_all
    with tiles_disjoint [OF t this(1) sl'(1) j(2)] sl'(2)
    have "set (slice_idxs (px (cl ! j))) \<inter> set (slice_idxs ?p) = {}" by simp
    from frame_slice [OF w(5) this] e
    show "cl2 ! j = cl ! j \<and> slice_elems arr' (px (cl2 ! j)) = slice_elems arr (px (cl ! j))"
      by simp
  qed
qed


section \<open>The loop of median cluster, stage by stage\<close>

lemma median_setWidestChannel_eq:
  "median_setWidestChannel im arr c =
     (c\<lparr>widestCh := fst (widest (find_extents im (slice_elems arr (px c))))\<rparr>,
      can_split im (slice_elems arr (px c)))"
  by (simp add: median_setWidestChannel_def can_split_def split: prod.splits)

lemma median_split_eq:
  "median_split im arr s c m =
     (fst (split_loop (\<lambda>p. chan (widestCh s) (RGBA_at im p) < m) (off (px s)) arr 0 (int (len (px s)) - 1)),
      s\<lparr>px := fst (split_slices (px s)
              (snd (split_loop (\<lambda>p. chan (widestCh s) (RGBA_at im p) < m) (off (px s)) arr 0 (int (len (px s)) - 1))))\<rparr>,
      c\<lparr>px := snd (split_slices (px s)
              (snd (split_loop (\<lambda>p. chan (widestCh s) (RGBA_at im p) < m) (off (px s)) arr 0 (int (len (px s)) - 1))))\<rparr>)"
  by (simp add: median_split_def split: prod.splits)

lemma median_cluster_body_eq:
  "median_cluster_body qz pq c i =
     (if m_pq1 qz pq c = [] then Break (Inr (qz\<lparr>cs := take i (m_cs1 qz c)\<rparr>))
      else case medianCut (img qz) (pxs qz) (m_cs1 qz c ! m_s qz pq c) of
             Inl e \<Rightarrow> Break (Inl e)
           | Inr m \<Rightarrow>
               if i \<ge> length (cs qz) then Break (Inl IndexOutOfRange)
               else if i + 1 = length (cs qz)
               then Break (Inr (qz\<lparr>pxs := fst (m_split qz pq c i m), cs := m_cs2 qz pq c i m,
                                  splits := splits qz + 1\<rparr>))
               else Continue (qz\<lparr>pxs := fst (m_split qz pq c i m), cs := m_cs3 qz pq c i m,
                                 splits := splits qz + 1\<rparr>, m_pq3 qz pq c i m, i, i + 1))"
  unfolding median_cluster_body_def m_pq1_def m_cs1_def m_s_def m_pq2_def m_split_def m_cs2_def
    m_cs3_def m_pq3_def median_setWidestChannel_eq
  by (simp add: Let_def split: prod.splits sum.splits)

lemma median_cluster_loop_rule:
  assumes "I qz pq c i"
    and "\<And>qz pq c i qz' pq' c' i'. I qz pq c i \<Longrightarrow>
           median_cluster_body qz pq c i = Continue (qz', pq', c', i') \<Longrightarrow> I qz' pq' c' i'"
    and "\<And>qz pq c i r. I qz pq c i \<Longrightarrow> median_cluster_body qz pq c i = Break (Inr r) \<Longrightarrow> Q r"
    and "median_cluster_loop qz pq c i = Inr r"
  shows "Q r"
  using assms(1,4)
proof (induction qz pq c i rule: median_cluster_loop.induct)
  case (1 qz pq c i)
  show ?case
  proof (cases "median_cluster_body qz pq c i")
    case (Break x)
    with "1.prems" assms(3) show ?thesis
      by (subst (asm) median_cluster_loop.simps) auto
  next
    case (Continue st)
    obtain qz' pq' c' i' where st: "st = (qz', pq', c', i')" by (cases st)
    from "1.prems"(2) Continue st have "median_cluster_loop qz' pq' c' i' = Inr r"
      by (subst (asm) median_cluster_loop.simps) simp
    moreover from assms(2) "1.prems"(1) Continue st have "I qz' pq' c' i'" by blast
    ultimately show ?thesis using "1.IH" Continue st by blast
  qed
qed

lemma m_cs1_props:
  "length (m_cs1 qz c) = length (cs qz)"
  "map px (m_cs1 qz c) = map px (cs qz)"
  "k \<noteq> c \<Longrightarrow> m_cs1 qz c ! k = cs qz ! k"
  "px (m_cs1 qz c ! k) = px (cs qz ! k)"
proof -
  show "length (m_cs1 qz c) = length (cs qz)" by (simp add: m_cs1_def)
  show "k \<noteq> c \<Longrightarrow> m_cs1 qz c ! k = cs qz ! k" by (simp add: m_cs1_def)
  show p: "px (m_cs1 qz c ! k) = px (cs qz ! k)"
    by (cases "k = c"; cases "c < length (cs qz)")
       (simp_all add: m_cs1_def median_setWidestChannel_eq list_update_beyond)
  have "\<And>j. px (m_cs1 qz c ! j) = px (cs qz ! j)"
    subgoal for j
      by (cases "j = c"; cases "c < length (cs qz)")
         (simp_all add: m_cs1_def median_setWidestChannel_eq list_update_beyond)
    done
  then show "map px (m_cs1 qz c) = map px (cs qz)"
    by (simp add: list_eq_iff_nth_eq \<open>length (m_cs1 qz c) = length (cs qz)\<close>)
qed

lemma m_pq1_set: "set (m_pq1 qz pq c) \<subseteq> insert c (set pq)"
proof -
  have "set (heap_Push (m_cs1 qz c) pq c) = insert c (set pq)"
    using heap_Push_props [of "m_cs1 qz c" pq c] by (metis set_mset_mset set_mset_add_mset_insert)
  then show ?thesis by (auto simp: m_pq1_def)
qed

lemma m_pop_set:
  assumes "m_pq1 qz pq c \<noteq> []"
  shows "m_s qz pq c \<in> set (m_pq1 qz pq c)" "set (m_pq2 qz pq c) \<subseteq> set (m_pq1 qz pq c)"
    "mset (m_pq1 qz pq c) = add_mset (m_s qz pq c) (mset (m_pq2 qz pq c))"
proof -
  have "heap_Pop (m_cs1 qz c) (m_pq1 qz pq c) = (m_s qz pq c, m_pq2 qz pq c)"
    by (simp add: m_s_def m_pq2_def)
  from heap_Pop_props [OF assms this]
  show m: "mset (m_pq1 qz pq c) = add_mset (m_s qz pq c) (mset (m_pq2 qz pq c))" by simp
  then have "set (m_pq1 qz pq c) = insert (m_s qz pq c) (set (m_pq2 qz pq c))"
    by (metis set_mset_mset set_mset_add_mset_insert)
  then show "m_s qz pq c \<in> set (m_pq1 qz pq c)" "set (m_pq2 qz pq c) \<subseteq> set (m_pq1 qz pq c)"
    by auto
qed

lemma m_pq3_set: "set (m_pq3 qz pq c i m) \<subseteq> insert (m_s qz pq c) (set (m_pq2 qz pq c))"
proof -
  have "set (heap_Push (m_cs3 qz pq c i m) (m_pq2 qz pq c) (m_s qz pq c))
      = insert (m_s qz pq c) (set (m_pq2 qz pq c))"
    using heap_Push_props [of "m_cs3 qz pq c i m" "m_pq2 qz pq c" "m_s qz pq c"]
    by (metis set_mset_mset set_mset_add_mset_insert)
  then show ?thesis by (auto simp: m_pq3_def)
qed

lemma m_split_props:
  assumes t: "tiles (length (pxs qz)) (map px (take i (cs qz)))"
    and si: "m_s qz pq c < i" "i < length (cs qz)"
  shows "tiles (length (fst (m_split qz pq c i m))) (map px (take (Suc i) (m_cs2 qz pq c i m)))"
    and "length (fst (m_split qz pq c i m)) = length (pxs qz)"
    and "mset (fst (m_split qz pq c i m)) = mset (pxs qz)"
    and "\<forall>j < i. j \<noteq> m_s qz pq c \<longrightarrow> m_cs2 qz pq c i m ! j = m_cs1 qz c ! j
            \<and> slice_elems (fst (m_split qz pq c i m)) (px (m_cs2 qz pq c i m ! j))
                = slice_elems (pxs qz) (px (m_cs1 qz c ! j))"
    and "len (px (m_cs2 qz pq c i m ! m_s qz pq c))
           = length (filter (m_low qz pq c m) (slice_elems (pxs qz) (px (cs qz ! m_s qz pq c))))"
    and "len (px (m_cs2 qz pq c i m ! m_s qz pq c)) + len (px (m_cs2 qz pq c i m ! i))
           = len (px (cs qz ! m_s qz pq c))"
    and "mset (slice_elems (fst (m_split qz pq c i m)) (px (m_cs2 qz pq c i m ! m_s qz pq c)))
           + mset (slice_elems (fst (m_split qz pq c i m)) (px (m_cs2 qz pq c i m ! i)))
           = mset (slice_elems (pxs qz) (px (cs qz ! m_s qz pq c)))"
    and "length (m_cs2 qz pq c i m) = length (cs qz)"
    and "widestCh (m_cs2 qz pq c i m ! m_s qz pq c) = widestCh (m_cs1 qz c ! m_s qz pq c)"
proof -
  define s where "s = m_s qz pq c"
  define cl where "cl = m_cs1 qz c"
  define low where "low = m_low qz pq c m"
  define r where "r = split_loop low (off (px (cl ! s))) (pxs qz) 0 (int (len (px (cl ! s))) - 1)"
  define lo hi where "lo = fst (split_slices (px (cl ! s)) (snd r))"
    and "hi = snd (split_slices (px (cl ! s)) (snd r))"
  have sp: "m_split qz pq c i m = (fst r, (cl ! s)\<lparr>px := lo\<rparr>, (cl ! i)\<lparr>px := hi\<rparr>)"
    unfolding m_split_def median_split_eq r_def lo_def hi_def low_def m_low_def cl_def s_def
    by simp
  have cl2: "m_cs2 qz pq c i m = cl[s := (cl ! s)\<lparr>px := lo\<rparr>, i := (cl ! i)\<lparr>px := hi\<rparr>]"
    unfolding m_cs2_def sp cl_def s_def by simp
  have t': "tiles (length (pxs qz)) (map px (take i cl))"
    using t m_cs1_props(2) [of qz c] by (simp add: cl_def take_map [symmetric])
  have si': "s < i" "i < length cl" using si by (simp_all add: s_def cl_def m_cs1_props)
  have r': "split_loop low (off (px (cl ! s))) (pxs qz) 0 (int (len (px (cl ! s))) - 1) = (fst r, snd r)"
    by (simp add: r_def)
  have sl: "split_slices (px (cl ! s)) (snd r) = (lo, hi)" by (simp add: lo_def hi_def)
  note ss = split_step [OF t' si' r' sl cl2]
  have pcl: "px (cl ! s) = px (cs qz ! s)" by (simp add: cl_def m_cs1_props)
  show "tiles (length (fst (m_split qz pq c i m))) (map px (take (Suc i) (m_cs2 qz pq c i m)))"
    using ss(1) by (simp add: sp)
  show "length (fst (m_split qz pq c i m)) = length (pxs qz)" using ss(2) by (simp add: sp)
  show "mset (fst (m_split qz pq c i m)) = mset (pxs qz)" using ss(3) by (simp add: sp)
  show "\<forall>j < i. j \<noteq> m_s qz pq c \<longrightarrow> m_cs2 qz pq c i m ! j = m_cs1 qz c ! j
            \<and> slice_elems (fst (m_split qz pq c i m)) (px (m_cs2 qz pq c i m ! j))
                = slice_elems (pxs qz) (px (m_cs1 qz c ! j))"
    using ss(4) unfolding sp fst_conv s_def cl_def .
  show "len (px (m_cs2 qz pq c i m ! m_s qz pq c))
           = length (filter (m_low qz pq c m) (slice_elems (pxs qz) (px (cs qz ! m_s qz pq c))))"
    using ss(5,7) pcl by (simp add: s_def [symmetric] low_def [symmetric])
  show "len (px (m_cs2 qz pq c i m ! m_s qz pq c)) + len (px (m_cs2 qz pq c i m ! i))
           = len (px (cs qz ! m_s qz pq c))"
    using ss(5,6,8) pcl by (simp add: s_def [symmetric])
  show "mset (slice_elems (fst (m_split qz pq c i m)) (px (m_cs2 qz pq c i m ! m_s qz pq c)))
           + mset (slice_elems (fst (m_split qz pq c i m)) (px (m_cs2 qz pq c i m ! i)))
           = mset (slice_elems (pxs qz) (px (cs qz ! m_s qz pq c)))"
    using ss(5,6,11) pcl by (simp add: sp s_def [symmetric])
  show "length (m_cs2 qz pq c i m) = length (cs qz)" by (simp add: cl2 cl_def m_cs1_props)
  show "widestCh (m_cs2 qz pq c i m ! m_s qz pq c) = widestCh (m_cs1 qz c ! m_s qz pq c)"
    using si' by (simp add: cl2 s_def [symmetric] cl_def [symmetric])
qed

lemma m_cs3_props:
  "length (m_cs3 qz pq c i m) = length (m_cs2 qz pq c i m)"
  "map px (m_cs3 qz pq c i m) = map px (m_cs2 qz pq c i m)"
  "k \<noteq> m_s qz pq c \<Longrightarrow> m_cs3 qz pq c i m ! k = m_cs2 qz pq c i m ! k"
  "px (m_cs3 qz pq c i m ! k) = px (m_cs2 qz pq c i m ! k)"
proof -
  show l: "length (m_cs3 qz pq c i m) = length (m_cs2 qz pq c i m)" by (simp add: m_cs3_def)
  show "k \<noteq> m_s qz pq c \<Longrightarrow> m_cs3 qz pq c i m ! k = m_cs2 qz pq c i m ! k"
    by (simp add: m_cs3_def)
  have p: "\<And>j. px (m_cs3 qz pq c i m ! j) = px (m_cs2 qz pq c i m ! j)"
    subgoal for j
      by (cases "j = m_s qz pq c"; cases "m_s qz pq c < length (m_cs2 qz pq c i m)")
         (simp_all add: m_cs3_def median_setWidestChannel_eq list_update_beyond)
    done
  then show "px (m_cs3 qz pq c i m ! k) = px (m_cs2 qz pq c i m ! k)" .
  from p l show "map px (m_cs3 qz pq c i m) = map px (m_cs2 qz pq c i m)"
    by (simp add: list_eq_iff_nth_eq)
qed

lemma median_inv1_Continue:
  assumes inv: "median_inv1 im arr0 qz pq c i"
    and b: "median_cluster_body qz pq c i = Continue (qz', pq', c', i')"
  shows "median_inv1 im arr0 qz' pq' c' i'"
proof -
  from b have ne: "m_pq1 qz pq c \<noteq> []"
    by (auto simp: median_cluster_body_eq split: if_splits)
  with b obtain m where m: "medianCut (img qz) (pxs qz) (m_cs1 qz c ! m_s qz pq c) = Inr m"
    by (auto simp: median_cluster_body_eq split: if_splits sum.splits)
  from b ne m have i: "i < length (cs qz)" "i + 1 \<noteq> length (cs qz)"
    and q: "qz' = qz\<lparr>pxs := fst (m_split qz pq c i m), cs := m_cs3 qz pq c i m, splits := splits qz + 1\<rparr>"
      "pq' = m_pq3 qz pq c i m" "c' = i" "i' = i + 1"
    by (auto simp: median_cluster_body_eq split: if_splits)
  from inv have iv: "img qz = im" "mset (pxs qz) = mset arr0" "c < i"
    "tiles (length (pxs qz)) (map px (take i (cs qz)))" "set pq \<subseteq> {..<i}" "splits qz + 1 = i"
    by (simp_all add: median_inv1_def)
  from m_pop_set [OF ne] m_pq1_set [of qz pq c] iv(3,5)
  have s: "m_s qz pq c < i" and p2: "set (m_pq2 qz pq c) \<subseteq> {..<i}" by auto
  note sp = m_split_props [OF iv(4) s i(1), of m]
  have "map px (take (Suc i) (m_cs3 qz pq c i m)) = map px (take (Suc i) (m_cs2 qz pq c i m))"
    using m_cs3_props(2) [of qz pq c i m] by (simp add: take_map [symmetric])
  with sp(1) have t: "tiles (length (fst (m_split qz pq c i m))) (map px (take (Suc i) (m_cs3 qz pq c i m)))"
    by simp
  from m_pq3_set [of qz pq c i m] s p2 have p3: "set (m_pq3 qz pq c i m) \<subseteq> {..<Suc i}"
    by (auto simp: subset_iff less_Suc_eq)
  from i sp(8) have l: "Suc i \<le> length (m_cs3 qz pq c i m)" by (simp add: m_cs3_props)
  show ?thesis unfolding median_inv1_def q using iv sp(3) t p3 l by simp
qed

lemma median_inv1_Break:
  assumes inv: "median_inv1 im arr0 qz pq c i"
    and b: "median_cluster_body qz pq c i = Break (Inr r)"
  shows "partitioned im arr0 (length (cs qz)) r"
proof -
  from inv have iv: "img qz = im" "mset (pxs qz) = mset arr0" "c < i" "i \<le> length (cs qz)"
    "tiles (length (pxs qz)) (map px (take i (cs qz)))" "set pq \<subseteq> {..<i}" "splits qz + 1 = i"
    by (simp_all add: median_inv1_def)
  show ?thesis
  proof (cases "m_pq1 qz pq c = []")
    case True
    with b have r: "r = qz\<lparr>cs := take i (m_cs1 qz c)\<rparr>" by (simp add: median_cluster_body_eq)
    have "map px (take i (m_cs1 qz c)) = map px (take i (cs qz))"
      using m_cs1_props(2) [of qz c] by (simp add: take_map [symmetric])
    with iv show ?thesis unfolding partitioned_def r by (simp add: m_cs1_props)
  next
    case ne: False
    with b obtain m where m: "medianCut (img qz) (pxs qz) (m_cs1 qz c ! m_s qz pq c) = Inr m"
      by (auto simp: median_cluster_body_eq split: if_splits sum.splits)
    from b ne m have i: "i < length (cs qz)" "i + 1 = length (cs qz)"
      and r: "r = qz\<lparr>pxs := fst (m_split qz pq c i m), cs := m_cs2 qz pq c i m, splits := splits qz + 1\<rparr>"
      by (auto simp: median_cluster_body_eq split: if_splits)
    from m_pop_set [OF ne] m_pq1_set [of qz pq c] iv(3,6)
    have s: "m_s qz pq c < i" by auto
    note sp = m_split_props [OF iv(5) s i(1), of m]
    from i sp(8) have "take (Suc i) (m_cs2 qz pq c i m) = m_cs2 qz pq c i m" by simp
    with sp(1) have "tiles (length (fst (m_split qz pq c i m))) (map px (m_cs2 qz pq c i m))" by simp
    with iv sp(3,8) i show ?thesis unfolding partitioned_def r by simp
  qed
qed

lemma length_scan_points:
  "length (scan_points b) = nat (MaxX b - MinX b) * nat (MaxY b - MinY b)"
  by (simp add: scan_points_def length_concat comp_def sum_list_triv)

lemma length_make_px:
  assumes "0 \<le> (MaxX b - MinX b) * (MaxY b - MinY b)"
  shows "length (make_px b ((MaxX b - MinX b) * (MaxY b - MinY b)))
           = nat ((MaxX b - MinX b) * (MaxY b - MinY b))"
proof -
  have "nat (MaxX b - MinX b) * nat (MaxY b - MinY b) \<le> nat ((MaxX b - MinX b) * (MaxY b - MinY b))"
  proof (cases "0 \<le> MaxX b - MinX b")
    case True
    then show ?thesis by (simp add: nat_mult_distrib)
  next
    case False
    then show ?thesis by simp
  qed
  then show ?thesis by (simp add: make_px_def length_scan_points)
qed

lemma median_cluster_partitioned:
  assumes "median_newQuantizer im n = Inr qz" "median_cluster qz = Inr r"
  shows "partitioned im (pxs qz) (nat n) r"
proof -
  from assms(1) have q: "img qz = im" "length (cs qz) = nat n" "0 < nat n" "splits qz = 0"
    "px (cs qz ! 0) = \<lparr>off = 0, len = length (pxs qz)\<rparr>"
    by (auto simp: median_newQuantizer_def Let_def Dx_def Dy_def length_make_px split: if_splits)
  have "take (Suc 0) (cs qz) = [cs qz ! 0]" using q(2,3) by (cases "cs qz") auto
  then have "tiles (length (pxs qz)) (map px (take (Suc 0) (cs qz)))"
    using q(5) by (simp add: tiles_def slice_idxs_def)
  with q have i0: "median_inv1 im (pxs qz) qz [] 0 1" by (simp add: median_inv1_def)
  have "partitioned im (pxs qz) (length (cs qz)) r"
  proof (rule median_cluster_loop_rule [where I = "\<lambda>q p c i. median_inv1 im (pxs qz) q p c i \<and> length (cs q) = length (cs qz)"
        and Q = "partitioned im (pxs qz) (length (cs qz))" and qz = qz and pq = "[]" and c = 0 and i = 1])
    show "median_inv1 im (pxs qz) qz [] 0 1 \<and> length (cs qz) = length (cs qz)" using i0 by simp
    show "median_cluster_loop qz [] 0 1 = Inr r" using assms(2) by (simp add: median_cluster_def)
    show "\<And>q p c i q' p' c' i'. median_inv1 im (pxs qz) q p c i \<and> length (cs q) = length (cs qz) \<Longrightarrow>
        median_cluster_body q p c i = Continue (q', p', c', i') \<Longrightarrow>
        median_inv1 im (pxs qz) q' p' c' i' \<and> length (cs q') = length (cs qz)"
      using median_inv1_Continue
      by (auto simp: median_cluster_body_def Let_def split: prod.splits sum.splits if_splits)
    show "\<And>q p c i r. median_inv1 im (pxs qz) q p c i \<and> length (cs q) = length (cs qz) \<Longrightarrow>
        median_cluster_body q p c i = Break (Inr r) \<Longrightarrow> partitioned im (pxs qz) (length (cs qz)) r"
      using median_inv1_Break by metis
  qed
  with q show ?thesis by simp
qed

section \<open>The loop of mean cluster, stage by stage\<close>

lemma mean_split_eq:
  "mean_split im arr s c m =
     (fst (split_loop (\<lambda>p. let v = chan (widestCh s) (RGBA_at im p) in v < m \<or> m = cmin s \<and> v = m)
             (off (px s)) arr 0 (int (len (px s)) - 1)),
      s\<lparr>px := fst (split_slices (px s)
              (snd (split_loop (\<lambda>p. let v = chan (widestCh s) (RGBA_at im p) in v < m \<or> m = cmin s \<and> v = m)
                     (off (px s)) arr 0 (int (len (px s)) - 1))))\<rparr>,
      c\<lparr>px := snd (split_slices (px s)
              (snd (split_loop (\<lambda>p. let v = chan (widestCh s) (RGBA_at im p) in v < m \<or> m = cmin s \<and> v = m)
                     (off (px s)) arr 0 (int (len (px s)) - 1))))\<rparr>)"
  by (simp add: mean_split_def split: prod.splits)

lemma mean_cluster_body_eq:
  "mean_cluster_body qz cx =
     (if select_cluster (n_cs1 qz cx) cx < 0 then Break (Inr (qz\<lparr>cs := take (cx + 1) (n_cs1 qz cx)\<rparr>))
      else case mean_cutValue (img qz) (pxs qz) (n_cs1 qz cx ! n_sx qz cx) (n_early qz cx) of
             Inl e \<Rightarrow> Break (Inl e)
           | Inr m \<Rightarrow>
               if cx + 1 \<ge> length (cs qz) then Break (Inl IndexOutOfRange)
               else if cx + 2 = length (cs qz)
               then Break (Inr (qz\<lparr>pxs := fst (n_split qz cx m), cs := n_cs2 qz cx m,
                                  splits := splits qz + 1\<rparr>))
               else Continue (qz\<lparr>pxs := fst (n_split qz cx m), cs := n_cs4 qz cx m,
                                 splits := splits qz + 1\<rparr>, cx + 1))"
  unfolding mean_cluster_body_def n_early_def n_cs1_def n_sx_def n_split_def n_cs2_def
    n_cs3_def n_cs4_def
  by (auto simp add: Let_def split: prod.splits sum.splits)

lemma mean_setPriority_px: "px (mean_setPriority im arr c e) = px c"
  by (simp add: mean_setPriority_def Let_def split: prod.splits)

lemma map_px_update:
  assumes "px y = px (xs ! k)"
  shows "map px (xs[k := y]) = map px xs"
  using assms by (cases "k < length xs") (simp_all add: map_update list_update_same_conv list_update_beyond)

lemma n_cs1_props:
  "length (n_cs1 qz cx) = length (cs qz)"
  "map px (n_cs1 qz cx) = map px (cs qz)"
  "k \<noteq> cx \<Longrightarrow> n_cs1 qz cx ! k = cs qz ! k"
  "px (n_cs1 qz cx ! k) = px (cs qz ! k)"
proof -
  show l: "length (n_cs1 qz cx) = length (cs qz)" by (simp add: n_cs1_def)
  show "k \<noteq> cx \<Longrightarrow> n_cs1 qz cx ! k = cs qz ! k" by (simp add: n_cs1_def)
  show m: "map px (n_cs1 qz cx) = map px (cs qz)"
    unfolding n_cs1_def by (rule map_px_update) (simp add: mean_setPriority_px)
  show "px (n_cs1 qz cx ! k) = px (cs qz ! k)"
    by (cases "k = cx"; cases "cx < length (cs qz)")
       (simp_all add: n_cs1_def mean_setPriority_px list_update_beyond)
qed

lemma select_cluster_fold:
  "fold (\<lambda>x (sx, maxP).
                  if cmax (cl ! x) > cmin (cl ! x) \<and> priority (cl ! x) > maxP
                  then (int x, priority (cl ! x)) else (sx, maxP)) xs (sx0, p0) = (sx, p)
   \<Longrightarrow> 0 \<le> p0 \<Longrightarrow> (sx0 < 0 \<and> p0 = 0 \<or> 0 \<le> sx0 \<and> cmin (cl ! nat sx0) < cmax (cl ! nat sx0) \<and> priority (cl ! nat sx0) = p0 \<and> 0 < p0 \<and> nat sx0 \<le> b)
   \<Longrightarrow> \<forall>x \<in> set xs. x \<le> b
   \<Longrightarrow> (sx < 0 \<and> p = 0 \<and> sx0 < 0 \<and> (\<forall>x \<in> set xs. \<not> (cmin (cl ! x) < cmax (cl ! x) \<and> 0 < priority (cl ! x))))
      \<or> (0 \<le> sx \<and> nat sx \<le> b \<and> cmin (cl ! nat sx) < cmax (cl ! nat sx) \<and> 0 < priority (cl ! nat sx))"
proof (induction xs arbitrary: sx0 p0)
  case Nil
  then show ?case by auto
next
  case (Cons a xs)
  show ?case
  proof (cases "cmax (cl ! a) > cmin (cl ! a) \<and> priority (cl ! a) > p0")
    case True
    with Cons.prems(1) have f: "fold (\<lambda>x (sx, maxP).
                  if cmax (cl ! x) > cmin (cl ! x) \<and> priority (cl ! x) > maxP
                  then (int x, priority (cl ! x)) else (sx, maxP)) xs (int a, priority (cl ! a)) = (sx, p)"
      by simp
    from Cons.IH [OF f] True Cons.prems(2,4) show ?thesis by auto
  next
    case False
    with Cons.prems(1) have f: "fold (\<lambda>x (sx, maxP).
                  if cmax (cl ! x) > cmin (cl ! x) \<and> priority (cl ! x) > maxP
                  then (int x, priority (cl ! x)) else (sx, maxP)) xs (sx0, p0) = (sx, p)"
      by simp
    from Cons.IH [OF f Cons.prems(2,3)] False Cons.prems(3,4) show ?thesis by auto
  qed
qed

lemma select_cluster_props:
  "(select_cluster cl cx < 0 \<and> (\<forall>x \<le> cx. \<not> (cmin (cl ! x) < cmax (cl ! x) \<and> 0 < priority (cl ! x))))
   \<or> (0 \<le> select_cluster cl cx \<and> nat (select_cluster cl cx) \<le> cx
       \<and> cmin (cl ! nat (select_cluster cl cx)) < cmax (cl ! nat (select_cluster cl cx))
       \<and> 0 < priority (cl ! nat (select_cluster cl cx)))"
proof -
  obtain sx p where f: "fold (\<lambda>x (sx, maxP).
                  if cmax (cl ! x) > cmin (cl ! x) \<and> priority (cl ! x) > maxP
                  then (int x, priority (cl ! x)) else (sx, maxP)) [0 ..< cx + 1] (-1, 0) = (sx, p)"
    by (cases "fold (\<lambda>x (sx, maxP).
                  if cmax (cl ! x) > cmin (cl ! x) \<and> priority (cl ! x) > maxP
                  then (int x, priority (cl ! x)) else (sx, maxP)) [0 ..< cx + 1] (-1, 0)") auto
  then have s: "select_cluster cl cx = sx" by (simp add: select_cluster_def)
  from select_cluster_fold [OF f, of cx] show ?thesis unfolding s by auto
qed

lemma n_split_props:
  assumes t: "tiles (length (pxs qz)) (map px (take (cx + 1) (cs qz)))"
    and si: "n_sx qz cx < cx + 1" "cx + 1 < length (cs qz)"
  shows "tiles (length (fst (n_split qz cx m))) (map px (take (cx + 2) (n_cs2 qz cx m)))"
    and "length (fst (n_split qz cx m)) = length (pxs qz)"
    and "mset (fst (n_split qz cx m)) = mset (pxs qz)"
    and "\<forall>j < cx + 1. j \<noteq> n_sx qz cx \<longrightarrow> n_cs2 qz cx m ! j = n_cs1 qz cx ! j
            \<and> slice_elems (fst (n_split qz cx m)) (px (n_cs2 qz cx m ! j))
                = slice_elems (pxs qz) (px (n_cs1 qz cx ! j))"
    and "len (px (n_cs2 qz cx m ! n_sx qz cx))
           = length (filter (n_low qz cx m) (slice_elems (pxs qz) (px (cs qz ! n_sx qz cx))))"
    and "len (px (n_cs2 qz cx m ! n_sx qz cx)) + len (px (n_cs2 qz cx m ! (cx + 1)))
           = len (px (cs qz ! n_sx qz cx))"
    and "mset (slice_elems (fst (n_split qz cx m)) (px (n_cs2 qz cx m ! n_sx qz cx)))
           + mset (slice_elems (fst (n_split qz cx m)) (px (n_cs2 qz cx m ! (cx + 1))))
           = mset (slice_elems (pxs qz) (px (cs qz ! n_sx qz cx)))"
    and "length (n_cs2 qz cx m) = length (cs qz)"
proof -
  define s where "s = n_sx qz cx"
  define i where "i = cx + 1"
  define cl where "cl = n_cs1 qz cx"
  define low where "low = n_low qz cx m"
  define r where "r = split_loop low (off (px (cl ! s))) (pxs qz) 0 (int (len (px (cl ! s))) - 1)"
  define lo hi where "lo = fst (split_slices (px (cl ! s)) (snd r))"
    and "hi = snd (split_slices (px (cl ! s)) (snd r))"
  have sp: "n_split qz cx m = (fst r, (cl ! s)\<lparr>px := lo\<rparr>, (cl ! i)\<lparr>px := hi\<rparr>)"
    unfolding n_split_def mean_split_eq r_def lo_def hi_def low_def n_low_def cl_def s_def i_def
    by simp
  have cl2: "n_cs2 qz cx m = cl[s := (cl ! s)\<lparr>px := lo\<rparr>, i := (cl ! i)\<lparr>px := hi\<rparr>]"
    unfolding n_cs2_def sp cl_def s_def i_def by simp
  have t': "tiles (length (pxs qz)) (map px (take i cl))"
    using t n_cs1_props(2) [of qz cx] by (simp add: cl_def i_def take_map [symmetric])
  have si': "s < i" "i < length cl" using si by (simp_all add: s_def cl_def i_def n_cs1_props)
  have r': "split_loop low (off (px (cl ! s))) (pxs qz) 0 (int (len (px (cl ! s))) - 1) = (fst r, snd r)"
    by (simp add: r_def)
  have sl: "split_slices (px (cl ! s)) (snd r) = (lo, hi)" by (simp add: lo_def hi_def)
  note ss = split_step [OF t' si' r' sl cl2]
  have pcl: "px (cl ! s) = px (cs qz ! s)" by (simp add: cl_def n_cs1_props)
  have i2: "Suc i = cx + 2" by (simp add: i_def)
  show "tiles (length (fst (n_split qz cx m))) (map px (take (cx + 2) (n_cs2 qz cx m)))"
    using ss(1) by (simp add: sp i2)
  show "length (fst (n_split qz cx m)) = length (pxs qz)" using ss(2) by (simp add: sp)
  show "mset (fst (n_split qz cx m)) = mset (pxs qz)" using ss(3) by (simp add: sp)
  show "\<forall>j < cx + 1. j \<noteq> n_sx qz cx \<longrightarrow> n_cs2 qz cx m ! j = n_cs1 qz cx ! j
            \<and> slice_elems (fst (n_split qz cx m)) (px (n_cs2 qz cx m ! j))
                = slice_elems (pxs qz) (px (n_cs1 qz cx ! j))"
    using ss(4) unfolding sp fst_conv s_def cl_def i_def .
  show "len (px (n_cs2 qz cx m ! n_sx qz cx))
           = length (filter (n_low qz cx m) (slice_elems (pxs qz) (px (cs qz ! n_sx qz cx))))"
    using ss(5,7) pcl by (simp add: s_def [symmetric] low_def [symmetric])
  show "len (px (n_cs2 qz cx m ! n_sx qz cx)) + len (px (n_cs2 qz cx m ! (cx + 1)))
           = len (px (cs qz ! n_sx qz cx))"
    using ss(5,6,8) pcl by (simp add: s_def [symmetric] i_def)
  show "mset (slice_elems (fst (n_split qz cx m)) (px (n_cs2 qz cx m ! n_sx qz cx)))
           + mset (slice_elems (fst (n_split qz cx m)) (px (n_cs2 qz cx m ! (cx + 1))))
           = mset (slice_elems (pxs qz) (px (cs qz ! n_sx qz cx)))"
    using ss(5,6,11) pcl by (simp add: sp s_def [symmetric] i_def)
  show "length (n_cs2 qz cx m) = length (cs qz)" by (simp add: cl2 cl_def n_cs1_props)
qed

lemma change_priorities_props:
  "length (change_priorities cl k) = length cl"
  "map px (change_priorities cl k) = map px cl"
  "j < length cl \<Longrightarrow> px (change_priorities cl k ! j) = px (cl ! j)"
proof -
  show l: "length (change_priorities cl k) = length cl" by (simp add: change_priorities_def)
  have "map px (change_priorities cl k) = map px (take k cl) @ map px (drop k cl)"
    by (simp add: change_priorities_def comp_def)
  also have "\<dots> = map px cl" by (simp add: map_append [symmetric] del: map_append)
  finally show m: "map px (change_priorities cl k) = map px cl" .
  assume "j < length cl"
  with l have "px (change_priorities cl k ! j) = map px (change_priorities cl k) ! j" by simp
  with m \<open>j < length cl\<close> show "px (change_priorities cl k ! j) = px (cl ! j)" by simp
qed

lemma n_cs4_props:
  "length (n_cs4 qz cx m) = length (n_cs2 qz cx m)"
  "map px (n_cs4 qz cx m) = map px (n_cs2 qz cx m)"
proof -
  have l3: "length (n_cs3 qz cx m) = length (n_cs2 qz cx m)"
    by (simp add: n_cs3_def change_priorities_props)
  have m3: "map px (n_cs3 qz cx m) = map px (n_cs2 qz cx m)"
    by (simp add: n_cs3_def change_priorities_props)
  show "length (n_cs4 qz cx m) = length (n_cs2 qz cx m)" by (simp add: n_cs4_def l3)
  have "map px (n_cs4 qz cx m) = map px (n_cs3 qz cx m)"
    unfolding n_cs4_def by (rule map_px_update) (simp add: mean_setPriority_px)
  with m3 show "map px (n_cs4 qz cx m) = map px (n_cs2 qz cx m)" by simp
qed

lemma n_sx_le:
  assumes "\<not> select_cluster (n_cs1 qz cx) cx < 0"
  shows "n_sx qz cx < cx + 1"
  using select_cluster_props [of "n_cs1 qz cx" cx] assms by (auto simp: n_sx_def)

lemma mean_inv1_Continue:
  assumes inv: "mean_inv1 im arr0 qz cx"
    and b: "mean_cluster_body qz cx = Continue (qz', cx')"
  shows "mean_inv1 im arr0 qz' cx'"
proof -
  from b have ne: "\<not> select_cluster (n_cs1 qz cx) cx < 0"
    by (auto simp: mean_cluster_body_eq split: if_splits)
  with b obtain m where m: "mean_cutValue (img qz) (pxs qz) (n_cs1 qz cx ! n_sx qz cx) (n_early qz cx) = Inr m"
    by (auto simp: mean_cluster_body_eq split: if_splits sum.splits)
  from b ne m have i: "cx + 1 < length (cs qz)" "cx + 2 \<noteq> length (cs qz)"
    and q: "qz' = qz\<lparr>pxs := fst (n_split qz cx m), cs := n_cs4 qz cx m, splits := splits qz + 1\<rparr>"
      "cx' = cx + 1"
    by (auto simp: mean_cluster_body_eq split: if_splits)
  from inv have iv: "img qz = im" "mset (pxs qz) = mset arr0"
    "tiles (length (pxs qz)) (map px (take (cx + 1) (cs qz)))" "splits qz = cx"
    by (simp_all add: mean_inv1_def)
  note sp = n_split_props [OF iv(3) n_sx_le [OF ne] i(1), of m]
  have "map px (take (cx + 2) (n_cs4 qz cx m)) = map px (take (cx + 2) (n_cs2 qz cx m))"
    using n_cs4_props(2) [of qz cx m] by (simp add: take_map [symmetric])
  with sp(1) have t: "tiles (length (fst (n_split qz cx m))) (map px (take (cx + 2) (n_cs4 qz cx m)))"
    by simp
  from i sp(8) have l: "cx + 1 < length (n_cs4 qz cx m)" by (simp add: n_cs4_props)
  have c2: "cx + 1 + 1 = cx + 2" by simp
  show ?thesis unfolding mean_inv1_def q c2 using iv sp(3) t l by simp
qed

lemma mean_inv1_Break:
  assumes inv: "mean_inv1 im arr0 qz cx"
    and b: "mean_cluster_body qz cx = Break (Inr r)"
  shows "partitioned im arr0 (length (cs qz)) r"
proof -
  from inv have iv: "img qz = im" "mset (pxs qz) = mset arr0" "cx < length (cs qz)"
    "tiles (length (pxs qz)) (map px (take (cx + 1) (cs qz)))" "splits qz = cx"
    by (simp_all add: mean_inv1_def)
  show ?thesis
  proof (cases "select_cluster (n_cs1 qz cx) cx < 0")
    case True
    with b have r: "r = qz\<lparr>cs := take (cx + 1) (n_cs1 qz cx)\<rparr>" by (simp add: mean_cluster_body_eq)
    have "map px (take (cx + 1) (n_cs1 qz cx)) = map px (take (cx + 1) (cs qz))"
      using n_cs1_props(2) [of qz cx] by (simp add: take_map [symmetric])
    with iv show ?thesis unfolding partitioned_def r by (simp add: n_cs1_props)
  next
    case ne: False
    with b obtain m where m: "mean_cutValue (img qz) (pxs qz) (n_cs1 qz cx ! n_sx qz cx) (n_early qz cx) = Inr m"
      by (auto simp: mean_cluster_body_eq split: if_splits sum.splits)
    from b ne m have i: "cx + 1 < length (cs qz)" "cx + 2 = length (cs qz)"
      and r: "r = qz\<lparr>pxs := fst (n_split qz cx m), cs := n_cs2 qz cx m, splits := splits qz + 1\<rparr>"
      by (auto simp: mean_cluster_body_eq split: if_splits)
    note sp = n_split_props [OF iv(4) n_sx_le [OF ne] i(1), of m]
    from i sp(8) have "take (cx + 2) (n_cs2 qz cx m) = n_cs2 qz cx m" by simp
    with sp(1) have "tiles (length (fst (n_split qz cx m))) (map px (n_cs2 qz cx m))" by simp
    with iv sp(3,8) i show ?thesis unfolding partitioned_def r by simp
  qed
qed

lemma mean_cluster_partitioned:
  assumes "1 \<le> n" "mean_newQuantizer im n = Inr qz" "mean_cluster qz = Inr r"
  shows "partitioned im (pxs qz) (nat n) r"
proof -
  from assms(1,2) have q: "img qz = im" "length (cs qz) = nat n" "0 < nat n" "splits qz = 0"
    "px (cs qz ! 0) = \<lparr>off = 0, len = length (pxs qz)\<rparr>"
    by (auto simp: mean_newQuantizer_def Let_def Dx_def Dy_def length_make_px split: if_splits)
  have "take (Suc 0) (cs qz) = [cs qz ! 0]" using q(2,3) by (cases "cs qz") auto
  then have "tiles (length (pxs qz)) (map px (take (Suc 0) (cs qz)))"
    using q(5) by (simp add: tiles_def slice_idxs_def)
  with q have i0: "mean_inv1 im (pxs qz) qz 0" by (simp add: mean_inv1_def)
  from q(2,3) have "cs qz \<noteq> []" by auto
  with assms(3) have lp: "mean_cluster_loop qz 0 = Inr r" by (simp add: mean_cluster_def)
  have "partitioned im (pxs qz) (length (cs qz)) r"
  proof (rule mean_cluster_loop_rule [where I = "\<lambda>q cx. mean_inv1 im (pxs qz) q cx \<and> length (cs q) = length (cs qz)"
        and Q = "partitioned im (pxs qz) (length (cs qz))" and qz = qz and cx = 0])
    show "mean_inv1 im (pxs qz) qz 0 \<and> length (cs qz) = length (cs qz)" using i0 by simp
    show "mean_cluster_loop qz 0 = Inr r" by (rule lp)
    show "\<And>q cx q' cx'. mean_inv1 im (pxs qz) q cx \<and> length (cs q) = length (cs qz) \<Longrightarrow>
        mean_cluster_body q cx = Continue (q', cx') \<Longrightarrow>
        mean_inv1 im (pxs qz) q' cx' \<and> length (cs q') = length (cs qz)"
      using mean_inv1_Continue mean_cluster_body_length by metis
    show "\<And>q cx r. mean_inv1 im (pxs qz) q cx \<and> length (cs q) = length (cs qz) \<Longrightarrow>
        mean_cluster_body q cx = Break (Inr r) \<Longrightarrow> partitioned im (pxs qz) (length (cs qz)) r"
      using mean_inv1_Break by metis
  qed
  with q show ?thesis by simp
qed

lemma sint_of_int32:
  assumes "- (2 ^ 31) \<le> x" "x < 2 ^ 31"
  shows "sint (word_of_int x :: i32) = x"
  using assms by (simp add: sint_sbintrunc' signed_take_bit_int_eq_self)

lemma map_coords_scan:
  assumes "fits_int32 b"
  shows "map coords (scan_points b) = coordinates b"
proof -
  have "\<And>x y. x \<in> set [MinX b .. MaxX b - 1] \<Longrightarrow> y \<in> set [MinY b .. MaxY b - 1]
      \<Longrightarrow> coords (word_of_int x, word_of_int y) = (x, y)"
    using assms by (auto simp: coords_def fits_int32_def intro!: sint_of_int32)
  then show ?thesis
    by (auto simp: scan_points_def coordinates_def map_concat comp_def intro!: arg_cong [where f = concat])
qed

lemma distinct_grid:
  "distinct xs \<Longrightarrow> distinct ys
     \<Longrightarrow> distinct (concat (map (\<lambda>y. map (\<lambda>x. (x, y)) xs) ys))"
  by (induction ys) (auto simp: distinct_map inj_on_def)

lemma distinct_coordinates: "distinct (coordinates b)"
  unfolding coordinates_def by (rule distinct_grid) simp_all

lemma make_px_wf:
  assumes "MinX b \<le> MaxX b" "MinY b \<le> MaxY b"
  shows "make_px b ((MaxX b - MinX b) * (MaxY b - MinY b)) = scan_points b"
  using assms by (simp add: make_px_def length_scan_points nat_mult_distrib)

lemma partitioned_pixels:
  assumes p: "partitioned im arr0 n r" and a: "map coords arr0 = coordinates b"
  shows "mset (concat (cluster_pixels r)) = mset (coordinates b) \<and> distinct (concat (cluster_pixels r))"
proof -
  from p have t: "tiles (length (pxs r)) (map px (cs r))" and m: "mset (pxs r) = mset arr0"
    by (simp_all add: partitioned_def)
  have "concat (cluster_pixels r) = map coords (concat (map (slice_elems (pxs r)) (map px (cs r))))"
    by (simp add: cluster_pixels_def map_concat comp_def)
  then have "mset (concat (cluster_pixels r)) = image_mset coords (mset (concat (map (slice_elems (pxs r)) (map px (cs r)))))"
    by simp
  also have "\<dots> = image_mset coords (mset (pxs r))" using tiles_elems [OF t] by simp
  also have "\<dots> = mset (map coords arr0)" using m by simp
  finally have e: "mset (concat (cluster_pixels r)) = mset (coordinates b)" using a by simp
  moreover have "distinct (concat (cluster_pixels r))"
    using e distinct_coordinates [of b] by (metis mset_eq_imp_distinct_iff)
  ultimately show ?thesis by simp
qed

section \<open>The full invariant of the loop of median cluster\<close>














section \<open>The clusters partition the pixels\<close>

lemma median_Quantize_eq:
  "median_Quantize im n =
     (case median_clusters im n of Inl e \<Rightarrow> Inl e | Inr qz \<Rightarrow> median_paletted qz)"
  by (simp add: median_Quantize_def median_clusters_def split: sum.splits)

lemma mean_Image_eq:
  "mean_Image im n =
     (case mean_clusters im (if n > 256 then 256 else n) of
        Inl e \<Rightarrow> Inl e | Inr qz \<Rightarrow> mean_paletted qz)"
  by (simp add: mean_Image_def mean_clusters_def Let_def split: sum.splits)

lemma newQuantizer_pxs:
  assumes "fits_int32 (Bounds im)"
  shows "median_newQuantizer im n = Inr qz \<Longrightarrow> pxs qz = scan_points (Bounds im)"
    and "1 \<le> n \<Longrightarrow> mean_newQuantizer im n = Inr qz' \<Longrightarrow> pxs qz' = scan_points (Bounds im)"
  using assms
  by (auto simp: median_newQuantizer_def mean_newQuantizer_def Let_def fits_int32_def make_px_wf
           split: if_splits)

lemma mean_newQuantizer_partitioned:
  assumes "mean_newQuantizer im 1 = Inr qz"
  shows "partitioned im (pxs qz) 1 qz"
proof -
  from assms have q: "img qz = im" "length (cs qz) = 1" "splits qz = 0"
    "px (cs qz ! 0) = \<lparr>off = 0, len = length (pxs qz)\<rparr>"
    by (auto simp: mean_newQuantizer_def Let_def Dx_def Dy_def length_make_px split: if_splits)
  from q(2) have "cs qz = [cs qz ! 0]" by (cases "cs qz") auto
  then have "map px (cs qz) = [px (cs qz ! 0)]" by (metis list.simps(8,9))
  with q show ?thesis by (simp add: partitioned_def tiles_def slice_idxs_def)
qed

lemma median_clusters_partitioned:
  assumes "median_clusters im n = Inr r"
  shows "\<exists>qz. median_newQuantizer im n = Inr qz \<and> partitioned im (pxs qz) (nat n) r"
proof -
  from assms obtain qz where q: "median_newQuantizer im n = Inr qz" "median_cluster qz = Inr r"
    by (auto simp: median_clusters_def split: sum.splits)
  from median_cluster_partitioned [OF q] q(1) show ?thesis by blast
qed

lemma mean_clusters_partitioned:
  assumes "1 \<le> n" "mean_clusters im n = Inr r"
  shows "\<exists>qz. mean_newQuantizer im n = Inr qz \<and> partitioned im (pxs qz) (nat n) r"
proof -
  from assms(2) obtain qz where q: "mean_newQuantizer im n = Inr qz"
    "(if n > 1 then mean_cluster qz else Inr qz) = Inr r"
    by (auto simp: mean_clusters_def split: sum.splits)
  show ?thesis
  proof (cases "n > 1")
    case True
    with q(2) have "mean_cluster qz = Inr r" by simp
    from mean_cluster_partitioned [OF assms(1) q(1) this] q(1) show ?thesis by blast
  next
    case False
    with assms(1) have n: "n = 1" by simp
    with q(2) have "r = qz" by simp
    with mean_newQuantizer_partitioned [of im qz] q(1) n show ?thesis by auto
  qed
qed

lemma tie_image_median:
  "(case median_clusters tie_image 2 of
      Inr r \<Rightarrow> cluster_pixels r = [[(0, 0)], [(1, 0)]] | Inl e \<Rightarrow> False)"
  by code_simp

lemma tie_image_mean:
  "(case mean_clusters tie_image 2 of
      Inr r \<Rightarrow> cluster_pixels r = [[(0, 0)], [(1, 0)]] | Inl e \<Rightarrow> False)"
  by code_simp

text \<open>
  Claim C1, amended.  For every image whose bounds are well-formed and lie in the range
  of \<open>int32\<close>, and every colour count \<open>K \<ge> 1\<close>: when the run of a cluster splitter
  (median: \<open>newQuantizer\<close> and \<open>cluster\<close>; mean: \<open>newQuantizer\<close> and, for \<open>K > 1\<close>,
  \<open>cluster\<close>) returns, the pixel lists of the returned clusters, read as coordinates and
  put one after the other, hold every pixel coordinate of the image exactly once: they are
  pairwise disjoint and their union is the set of the pixel coordinates of the image.
\<close>

theorem clusters_partition_pixels:
  assumes "fits_int32 (Bounds im)" and "1 \<le> K"
  shows "(median_clusters im K = Inr r \<longrightarrow>
            mset (concat (cluster_pixels r)) = mset (coordinates (Bounds im))
            \<and> distinct (concat (cluster_pixels r)))
       \<and> (mean_clusters im K = Inr r' \<longrightarrow>
            mset (concat (cluster_pixels r')) = mset (coordinates (Bounds im))
            \<and> distinct (concat (cluster_pixels r')))"
proof (intro conjI impI)
  assume "median_clusters im K = Inr r"
  from median_clusters_partitioned [OF this]
  obtain qz where q: "median_newQuantizer im K = Inr qz" "partitioned im (pxs qz) (nat K) r"
    by blast
  from newQuantizer_pxs(1) [OF assms(1) q(1)] map_coords_scan [OF assms(1)]
  have "map coords (pxs qz) = coordinates (Bounds im)" by simp
  from partitioned_pixels [OF q(2) this]
  show "mset (concat (cluster_pixels r)) = mset (coordinates (Bounds im))"
    and "distinct (concat (cluster_pixels r))" by simp_all
next
  assume "mean_clusters im K = Inr r'"
  from mean_clusters_partitioned [OF assms(2) this]
  obtain qz where q: "mean_newQuantizer im K = Inr qz" "partitioned im (pxs qz) (nat K) r'"
    by blast
  from newQuantizer_pxs(2) [OF assms(1,2) q(1)] map_coords_scan [OF assms(1)]
  have "map coords (pxs qz) = coordinates (Bounds im)" by simp
  from partitioned_pixels [OF q(2) this]
  show "mset (concat (cluster_pixels r')) = mset (coordinates (Bounds im))"
    and "distinct (concat (cluster_pixels r'))" by simp_all
qed

theorem clusters_partition_pixels_witness:
  "fits_int32 (Bounds tie_image) \<and> (1 :: int) \<le> 2
   \<and> coordinates (Bounds tie_image) = [(0, 0), (1, 0)]
   \<and> (\<exists>r. median_clusters tie_image 2 = Inr r
          \<and> cluster_pixels r = [[(0, 0)], [(1, 0)]]
          \<and> mset (concat (cluster_pixels r)) = mset (coordinates (Bounds tie_image))
          \<and> distinct (concat (cluster_pixels r)))
   \<and> (\<exists>r. mean_clusters tie_image 2 = Inr r
          \<and> cluster_pixels r = [[(0, 0)], [(1, 0)]]
          \<and> mset (concat (cluster_pixels r)) = mset (coordinates (Bounds tie_image))
          \<and> distinct (concat (cluster_pixels r)))"
proof -
  have f: "fits_int32 (Bounds tie_image)" by code_simp
  have c: "coordinates (Bounds tie_image) = [(0, 0), (1, 0)]" by code_simp
  from tie_image_median obtain r where r: "median_clusters tie_image 2 = Inr r"
    "cluster_pixels r = [[(0, 0)], [(1, 0)]]" by (auto split: sum.splits)
  from tie_image_mean obtain r' where r': "mean_clusters tie_image 2 = Inr r'"
    "cluster_pixels r' = [[(0, 0)], [(1, 0)]]" by (auto split: sum.splits)
  from clusters_partition_pixels [OF f, of 2 r r'] r r' f c show ?thesis by simp
qed

text \<open>
  The claim as stated fails for an image beyond the range of \<open>int32\<close>: \<open>newQuantizer\<close>
  stores \<open>point{int32(x), int32(y)}\<close>, so the pixel at \<open>x = 2\<^sup>3\<^sup>1\<close> is held as
  \<open>x = -2\<^sup>3\<^sup>1\<close>, which is no pixel of the image.
\<close>

theorem clusters_partition_pixels_counterexample:
  "coordinates (Bounds far_image) = [(2147483648, 0)]
   \<and> (case median_clusters far_image 1 of
         Inr r \<Rightarrow> cluster_pixels r = [[(- 2147483648, 0)]] | Inl e \<Rightarrow> False)
   \<and> (case mean_clusters far_image 1 of
         Inr r \<Rightarrow> cluster_pixels r = [[(- 2147483648, 0)]] | Inl e \<Rightarrow> False)"
  by code_simp

section \<open>The full invariant of the loop of mean cluster\<close>














section \<open>Splits and returned clusters are not empty\<close>














section \<open>The number of clusters\<close>












end
